theory Spec2Isabelle
  imports Complex_Main "HOL-Library.Word" "HOL-Library.Sublist" "HOL-Library.Monad_Syntax"
begin

section \<open>Console streams and machine integers\<close>

text \<open>
  The four programs are C++ console applications.  A C++ \<^verbatim>\<open>int\<close> is a 32-bit
  two's-complement value: it is a \<^typ>\<open>32 word\<close>, read through \<^const>\<open>sint\<close>.
  A \<^verbatim>\<open>double\<close> is carried by its exact value, a rational number, or it is the
  negative zero, which is a value of its own beside the zero.  Infinities and NaN are not
  represented: the classes initialise an amount with zero, and an extraction from the
  stream never stores them.  Objects created by \<^verbatim>\<open>new\<close> live in a heap, a map
  from addresses to objects; a pointer is an address.
\<close>

type_synonym int32 = "32 word"
type_synonym addr = nat

datatype double = Value rat | Negative_Zero

text \<open>
  Standard input is the sequence of values that the successive extractions of a
  well-formed interactive session yield: an \<^verbatim>\<open>int\<close>, a whitespace-delimited word
  (\<^verbatim>\<open>cin >> string\<close>), the rest of a line (\<^verbatim>\<open>cin.ignore(); getline(cin, s)\<close>) or
  a \<^verbatim>\<open>double\<close>.  An extraction that does not find a value of its type (malformed
  or exhausted input) puts the C++ stream into its failure state; the four extractions
  below stop there with \<^const>\<open>None\<close>.  What the hospital program does after such a
  failure is modelled with the run of its \<^verbatim>\<open>main\<close> on any input.
  Standard output is the text written so far.
\<close>

datatype cin_item = IntItem int32 | WordItem string | LineItem string | DoubleItem double

record io =
  cin :: "cin_item list"
  cout :: string

definition put :: "string \<Rightarrow> 'a io_scheme \<Rightarrow> 'a io_scheme" where
  "put text s = s\<lparr>cout := cout s @ text\<rparr>"

definition get_int :: "'a io_scheme \<Rightarrow> (int32 \<times> 'a io_scheme) option" where
  "get_int s = (case cin s of IntItem v # rest \<Rightarrow> Some (v, s\<lparr>cin := rest\<rparr>) | _ \<Rightarrow> None)"

definition get_word :: "'a io_scheme \<Rightarrow> (string \<times> 'a io_scheme) option" where
  "get_word s = (case cin s of WordItem v # rest \<Rightarrow> Some (v, s\<lparr>cin := rest\<rparr>) | _ \<Rightarrow> None)"

definition get_line :: "'a io_scheme \<Rightarrow> (string \<times> 'a io_scheme) option" where
  "get_line s = (case cin s of LineItem v # rest \<Rightarrow> Some (v, s\<lparr>cin := rest\<rparr>) | _ \<Rightarrow> None)"

definition get_double :: "'a io_scheme \<Rightarrow> (double \<times> 'a io_scheme) option" where
  "get_double s = (case cin s of DoubleItem v # rest \<Rightarrow> Some (v, s\<lparr>cin := rest\<rparr>) | _ \<Rightarrow> None)"

text \<open>\<^verbatim>\<open>cout << int\<close>: the decimal digits of the signed value, with a minus sign.\<close>

definition digit_char :: "nat \<Rightarrow> char" where
  "digit_char d = ''0123456789'' ! d"

fun show_nat :: "nat \<Rightarrow> string" where
  "show_nat n =
     (if n < 10 then [digit_char n] else show_nat (n div 10) @ [digit_char (n mod 10)])"

declare show_nat.simps [simp del]

definition show_int :: "int32 \<Rightarrow> string" where
  "show_int w =
     (if sint w < 0 then ''-'' @ show_nat (nat (- sint w)) else show_nat (nat (sint w)))"


text \<open>
  \<^verbatim>\<open>cout << double\<close> with the stream's default settings is the conversion
  \<^verbatim>\<open>%g\<close> of \<^verbatim>\<open>printf\<close> with precision 6: the value is rounded to six significant
  digits (to nearest, ties to the even digit); when the decimal exponent \<open>e\<close> of the
  rounded value satisfies \<open>-4 \<le> e < 6\<close> it is written in fixed notation, otherwise in
  scientific notation with an exponent of at least two digits; trailing zeros of the
  fraction are removed, and the decimal point with them when no fraction remains.  Zero
  is written \<^verbatim>\<open>0\<close> and the negative zero \<^verbatim>\<open>-0\<close>.
\<close>

definition pow10 :: "int \<Rightarrow> rat" where
  "pow10 e = (if 0 \<le> e then 10 ^ nat e else 1 / 10 ^ nat (- e))"

definition decimal_exponent :: "rat \<Rightarrow> int" where
  "decimal_exponent a =
     (case quotient_of a of
        (p, q) \<Rightarrow>
          let e = int (length (show_nat (nat p))) - int (length (show_nat (nat q)))
          in if pow10 e \<le> a then e else e - 1)"

definition round_half_even :: "rat \<Rightarrow> int" where
  "round_half_even x =
     (let f = \<lfloor>x\<rfloor>; r = x - of_int f
      in if 1 / 2 < r \<or> (r = 1 / 2 \<and> odd f) then f + 1 else f)"

definition strip_zeros :: "string \<Rightarrow> string" where
  "strip_zeros ds = rev (dropWhile (\<lambda>c. c = CHR ''0'') (rev ds))"

definition with_fraction :: "string \<Rightarrow> string \<Rightarrow> string" where
  "with_fraction whole fraction = (if fraction = [] then whole else whole @ ''.'' @ fraction)"

definition fixed_notation :: "string \<Rightarrow> int \<Rightarrow> string" where
  "fixed_notation ds e =
     (if 0 \<le> e then with_fraction (take (nat (e + 1)) ds) (strip_zeros (drop (nat (e + 1)) ds))
      else with_fraction ''0'' (replicate (nat (- e - 1)) CHR ''0'' @ strip_zeros ds))"

definition scientific_notation :: "string \<Rightarrow> int \<Rightarrow> string" where
  "scientific_notation ds e =
     with_fraction (take 1 ds) (strip_zeros (drop 1 ds)) @ ''e'' @
     (if e < 0 then ''-'' else ''+'') @ (if \<bar>e\<bar> < 10 then ''0'' else []) @ show_nat (nat \<bar>e\<bar>)"

definition show_value :: "rat \<Rightarrow> string" where
  "show_value x =
     (if x = 0 then ''0''
      else
        let e0 = decimal_exponent \<bar>x\<bar>;
            m0 = round_half_even (\<bar>x\<bar> * pow10 (5 - e0));
            m = (if m0 = 1000000 then 100000 else m0);
            e = (if m0 = 1000000 then e0 + 1 else e0);
            ds = show_nat (nat m)
        in (if x < 0 then ''-'' else []) @
           (if - 4 \<le> e \<and> e < 6 then fixed_notation ds e else scientific_notation ds e))"

fun show_double :: "double \<Rightarrow> string" where
  "show_double (Value x) = show_value x"
| "show_double Negative_Zero = ''-0''"


section \<open>Objects on the heap\<close>

text \<open>
  \<^verbatim>\<open>new\<close> places the object at a fresh address and returns the address; it never
  runs out of memory here.  \<^verbatim>\<open>delete\<close> removes the object.  Deleting an address
  that holds no object is undefined behaviour in C++ and \<^const>\<open>None\<close> here.
\<close>

record 'o memory = io +
  heap :: "addr \<rightharpoonup> 'o"
  next_addr :: addr

definition new_obj :: "'o \<Rightarrow> ('o, 'a) memory_scheme \<Rightarrow> addr \<times> ('o, 'a) memory_scheme" where
  "new_obj obj s =
     (next_addr s, s\<lparr>heap := (heap s)(next_addr s \<mapsto> obj), next_addr := Suc (next_addr s)\<rparr>)"

definition delete_obj :: "addr \<Rightarrow> ('o, 'a) memory_scheme \<Rightarrow> ('o, 'a) memory_scheme option" where
  "delete_obj p s =
     (case heap s p of None \<Rightarrow> None | Some obj \<Rightarrow> Some (s\<lparr>heap := (heap s)(p := None)\<rparr>))"


section \<open>The hospital program (\<^verbatim>\<open>q2_hospital.cpp\<close>)\<close>

text \<open>
  \<^verbatim>\<open>class Person\<close> has the fields \<^verbatim>\<open>name\<close> and \<^verbatim>\<open>age\<close>; \<^verbatim>\<open>Doctor\<close> and
  \<^verbatim>\<open>Patient\<close> extend it.  No constructor initialises the \<^verbatim>\<open>int\<close> fields
  \<^verbatim>\<open>age\<close> and \<^verbatim>\<open>doctor_specialist\<close>: they are indeterminate (\<^const>\<open>None\<close>) until
  \<^verbatim>\<open>getdata\<close> assigns them, and a string is empty until then.
\<close>

record Person =
  name :: string
  age :: "int32 option"

record Doctor = Person +
  doctor_specialist :: "int32 option"
  doctor_id :: int32

record Patient = Person +
  admission_date :: string
  patient_id :: int32

datatype person_obj = DoctorObj Doctor | PatientObj Patient

text \<open>
  The state of the program: the streams, the heap, the two static counters and the
  array \<^verbatim>\<open>Person* people[n]\<close> of \<^verbatim>\<open>main\<close>, whose slots are indeterminate until
  assigned.
\<close>

record hospital = "person_obj memory" +
  doctor_count :: int32
  patient_count :: int32
  people :: "int32 \<rightharpoonup> addr"

text \<open>
  \<^verbatim>\<open>Doctor() { doctor_id = ++doctor_count; }\<close> and the same for \<^verbatim>\<open>Patient\<close>.  The
  increment of a counter that holds \<^verbatim>\<open>INT_MAX\<close> is undefined behaviour in C++; the
  word addition wraps there.
\<close>

definition Doctor_ctor :: "hospital \<Rightarrow> Doctor \<times> hospital" where
  "Doctor_ctor s =
     (let s1 = s\<lparr>doctor_count := doctor_count s + 1\<rparr>
      in (\<lparr>name = [], age = None, doctor_specialist = None, doctor_id = doctor_count s1\<rparr>, s1))"

definition Patient_ctor :: "hospital \<Rightarrow> Patient \<times> hospital" where
  "Patient_ctor s =
     (let s1 = s\<lparr>patient_count := patient_count s + 1\<rparr>
      in (\<lparr>name = [], age = None, admission_date = [], patient_id = patient_count s1\<rparr>, s1))"

text \<open>\<^verbatim>\<open>new Doctor()\<close> and \<^verbatim>\<open>new Patient()\<close>.\<close>

definition new_Doctor :: "hospital \<Rightarrow> addr \<times> hospital" where
  "new_Doctor s = (case Doctor_ctor s of (d, s1) \<Rightarrow> new_obj (DoctorObj d) s1)"

definition new_Patient :: "hospital \<Rightarrow> addr \<times> hospital" where
  "new_Patient s = (case Patient_ctor s of (q, s1) \<Rightarrow> new_obj (PatientObj q) s1)"

definition Doctor_getdata :: "Doctor \<Rightarrow> 'a io_scheme \<Rightarrow> (Doctor \<times> 'a io_scheme) option" where
  "Doctor_getdata d s = do {
     (nm, s) \<leftarrow> get_word (put ''Enter Doctor Name: '' s);
     (a, s) \<leftarrow> get_int (put ''Enter Age: '' s);
     (sp, s) \<leftarrow> get_int (put ''Enter Specialist ID: '' s);
     Some (d\<lparr>name := nm, age := Some a, doctor_specialist := Some sp\<rparr>, s)
   }"

definition Patient_getdata :: "Patient \<Rightarrow> 'a io_scheme \<Rightarrow> (Patient \<times> 'a io_scheme) option" where
  "Patient_getdata q s = do {
     (nm, s) \<leftarrow> get_word (put ''Enter Patient Name: '' s);
     (a, s) \<leftarrow> get_int (put ''Enter Age: '' s);
     (ad, s) \<leftarrow> get_word (put ''Enter Admission Date: '' s);
     Some (q\<lparr>name := nm, age := Some a, admission_date := ad\<rparr>, s)
   }"

text \<open>
  The line that \<^verbatim>\<open>putdata\<close> writes.  It reads every field; reading an indeterminate
  one is undefined behaviour, \<^const>\<open>None\<close> here.
\<close>

definition Doctor_line :: "Doctor \<Rightarrow> string option" where
  "Doctor_line d = do {
     a \<leftarrow> age d;
     sp \<leftarrow> doctor_specialist d;
     Some (''Doctor -> Name: '' @ name d @ '', Age: '' @ show_int a @
           '', Specialist ID: '' @ show_int sp @
           '', Doctor ID: '' @ show_int (doctor_id d) @ ''\<newline>'')
   }"

definition Patient_line :: "Patient \<Rightarrow> string option" where
  "Patient_line q = do {
     a \<leftarrow> age q;
     Some (''Patient -> Name: '' @ name q @ '', Age: '' @ show_int a @
           '', Admission Date: '' @ admission_date q @
           '', Patient ID: '' @ show_int (patient_id q) @ ''\<newline>'')
   }"

definition Doctor_putdata :: "Doctor \<Rightarrow> 'a io_scheme \<Rightarrow> 'a io_scheme option" where
  "Doctor_putdata d s = do { line \<leftarrow> Doctor_line d; Some (put line s) }"

definition Patient_putdata :: "Patient \<Rightarrow> 'a io_scheme \<Rightarrow> 'a io_scheme option" where
  "Patient_putdata q s = do { line \<leftarrow> Patient_line q; Some (put line s) }"

text \<open>
  The virtual calls \<^verbatim>\<open>p->getdata()\<close> and \<^verbatim>\<open>p->putdata()\<close> through a
  \<^verbatim>\<open>Person*\<close>: the object at the address decides which body runs, and
  \<^verbatim>\<open>getdata\<close> stores the fields it read into that object.
\<close>

definition getdata :: "addr \<Rightarrow> hospital \<Rightarrow> hospital option" where
  "getdata p s =
     (case heap s p of
        None \<Rightarrow> None
      | Some (DoctorObj d) \<Rightarrow>
          do { (d', s') \<leftarrow> Doctor_getdata d s;
               Some (s'\<lparr>heap := (heap s')(p \<mapsto> DoctorObj d')\<rparr>) }
      | Some (PatientObj q) \<Rightarrow>
          do { (q', s') \<leftarrow> Patient_getdata q s;
               Some (s'\<lparr>heap := (heap s')(p \<mapsto> PatientObj q')\<rparr>) })"

definition putdata :: "addr \<Rightarrow> hospital \<Rightarrow> hospital option" where
  "putdata p s =
     (case heap s p of
        None \<Rightarrow> None
      | Some (DoctorObj d) \<Rightarrow> Doctor_putdata d s
      | Some (PatientObj q) \<Rightarrow> Patient_putdata q s)"

text \<open>
  \<^verbatim>\<open>main\<close>.  The \<^verbatim>\<open>if (choice == 1) ... else ...\<close> of the first loop, then its
  whole body for the index \<^verbatim>\<open>i\<close>.
\<close>

definition new_person :: "int32 \<Rightarrow> hospital \<Rightarrow> addr \<times> hospital" where
  "new_person choice s = (if choice = 1 then new_Doctor s else new_Patient s)"

definition entry_body :: "int32 \<Rightarrow> hospital \<Rightarrow> hospital option" where
  "entry_body i s = do {
     (choice, s) \<leftarrow> get_int (put ''\<newline>Enter 1 for Doctor, 2 for Patient: '' s);
     (p, s) \<leftarrow> Some (new_person choice s);
     s \<leftarrow> Some (s\<lparr>people := (people s)(i \<mapsto> p)\<rparr>);
     p \<leftarrow> people s i;
     getdata p s
   }"

text \<open>
  The three loops \<^verbatim>\<open>for (int i = 0; i < n; i++)\<close>, with the signed comparison of
  \<^verbatim>\<open>int\<close>.  The index never overflows: it is incremented only below \<^verbatim>\<open>n\<close>.
\<close>

lemma sint_succ: "sint (i + 1) = sint i + 1" if "i <s n" for i n :: int32
proof -
  have lo: "- (2 ^ 31) \<le> sint i" using sint_ge [of i] by simp
  have hi: "sint n < 2 ^ 31" using sint_lt [of n] by simp
  from that have "sint i < sint n" by (simp add: word_sless_alt)
  with lo hi have "signed_take_bit 31 (sint i + 1) = sint i + 1"
    by (intro signed_take_bit_int_eq_self) simp_all
  then show ?thesis by (simp add: sint_word_ariths)
qed

function entry_loop :: "int32 \<Rightarrow> int32 \<Rightarrow> hospital \<Rightarrow> hospital option" where
  "entry_loop i n s =
     (if i <s n then do { s' \<leftarrow> entry_body i s; entry_loop (i + 1) n s' } else Some s)"
  by pat_completeness auto
termination
  by (relation "measure (\<lambda>(i, n, s). nat (sint n - sint i))")
    (auto simp: sint_succ word_sless_alt)

function display_loop :: "int32 \<Rightarrow> int32 \<Rightarrow> hospital \<Rightarrow> hospital option" where
  "display_loop i n s =
     (if i <s n then do { p \<leftarrow> people s i; s' \<leftarrow> putdata p s; display_loop (i + 1) n s' }
      else Some s)"
  by pat_completeness auto
termination
  by (relation "measure (\<lambda>(i, n, s). nat (sint n - sint i))")
    (auto simp: sint_succ word_sless_alt)

function delete_loop :: "int32 \<Rightarrow> int32 \<Rightarrow> hospital \<Rightarrow> hospital option" where
  "delete_loop i n s =
     (if i <s n then do { p \<leftarrow> people s i; s' \<leftarrow> delete_obj p s; delete_loop (i + 1) n s' }
      else Some s)"
  by pat_completeness auto
termination
  by (relation "measure (\<lambda>(i, n, s). nat (sint n - sint i))")
    (auto simp: sint_succ word_sless_alt)

declare entry_loop.simps [simp del] display_loop.simps [simp del] delete_loop.simps [simp del]

text \<open>The program starts with both static counters at 0, an empty heap and nothing written.\<close>

definition hospital_init :: "cin_item list \<Rightarrow> hospital" where
  "hospital_init input =
     \<lparr>cin = input, cout = [], heap = Map.empty, next_addr = 0,
      doctor_count = 0, patient_count = 0, people = Map.empty\<rparr>"


subsection \<open>The run of \<^verbatim>\<open>main\<close> on any input\<close>

text \<open>
  The program never tests the stream and never clears it, so it runs on after an
  extraction has failed.  The run of \<^verbatim>\<open>main\<close> therefore carries the failure flag of
  \<^verbatim>\<open>cin\<close> beside the state.  An extraction on a stream that has failed does nothing
  and leaves its variable as it was.  So does an extraction that finds the input at its
  end, and it sets the flag.  Otherwise \<^verbatim>\<open>>> string\<close> takes the next item as the word
  it is written as, and \<^verbatim>\<open>>> int\<close> takes an \<^verbatim>\<open>int\<close> item as its value and scans
  the text of any other item: an optional sign and the decimal digits that follow it.
  With no digit there, 0 is stored and the flag is set; a number outside the range of
  \<^verbatim>\<open>int\<close> stores the nearest bound and sets the flag; otherwise the number is stored
  and the characters after its digits stay on the input as the next word.  What is left
  on the input when the flag is set is never read again; the model leaves the input as it
  is then.
\<close>

fun item_text :: "cin_item \<Rightarrow> string" where
  "item_text (IntItem v) = show_int v"
| "item_text (WordItem w) = w"
| "item_text (LineItem l) = l"
| "item_text (DoubleItem d) = show_double d"

definition is_digit :: "char \<Rightarrow> bool" where
  "is_digit c = (c \<in> set ''0123456789'')"

definition digit_value :: "char \<Rightarrow> nat" where
  "digit_value c = length (takeWhile (\<lambda>d. d \<noteq> c) ''0123456789'')"

definition digits_value :: "string \<Rightarrow> nat" where
  "digits_value ds = foldl (\<lambda>v c. 10 * v + digit_value c) 0 ds"

definition INT_MAX :: int32 where
  "INT_MAX = 2147483647"

definition INT_MIN :: int32 where
  "INT_MIN = - 2147483648"

datatype scanned = Number int32 string | No_number int32

definition scan_int :: "string \<Rightarrow> scanned" where
  "scan_int t =
     (let body = (if take 1 t = ''-'' \<or> take 1 t = ''+'' then drop 1 t else t);
          ds = takeWhile is_digit body;
          v = (if take 1 t = ''-'' then - int (digits_value ds) else int (digits_value ds))
      in if ds = [] then No_number 0
         else if v < - (2 ^ 31) then No_number INT_MIN
         else if 2 ^ 31 \<le> v then No_number INT_MAX
         else Number (word_of_int v) (dropWhile is_digit body))"

definition extract_int ::
  "int32 option \<Rightarrow> bool \<times> 'a io_scheme \<Rightarrow> int32 option \<times> bool \<times> 'a io_scheme" where
  "extract_int var = (\<lambda>(failbit, s).
     if failbit then (var, True, s)
     else
       (case cin s of
          [] \<Rightarrow> (var, True, s)
        | IntItem v # rest \<Rightarrow> (Some v, False, s\<lparr>cin := rest\<rparr>)
        | item # rest \<Rightarrow>
            (case scan_int (item_text item) of
               No_number v \<Rightarrow> (Some v, True, s)
             | Number v unread \<Rightarrow>
                 (Some v, False,
                  s\<lparr>cin := (if unread = [] then rest else WordItem unread # rest)\<rparr>))))"

definition extract_word ::
  "string \<Rightarrow> bool \<times> 'a io_scheme \<Rightarrow> string \<times> bool \<times> 'a io_scheme" where
  "extract_word var = (\<lambda>(failbit, s).
     if failbit then (var, True, s)
     else
       (case cin s of
          [] \<Rightarrow> (var, True, s)
        | item # rest \<Rightarrow> (item_text item, False, s\<lparr>cin := rest\<rparr>)))"

text \<open>
  An \<^verbatim>\<open>int\<close> that no extraction has stored into stays indeterminate, and the program
  goes on to use it: the count \<^verbatim>\<open>n\<close>, the \<^verbatim>\<open>choice\<close> of a pass, the age and the
  specialist id of a record.  Each of them is read once at most, so what the memory holds
  at these places is a parameter of the run, \<open>junk\<close>, and every statement about the run
  is made for every \<open>junk\<close>.
\<close>

datatype place = Count | Choice int32 | Age addr | Specialist addr

definition stored :: "(place \<Rightarrow> int32) \<Rightarrow> place \<Rightarrow> int32 option \<Rightarrow> int32" where
  "stored junk x var = (case var of Some v \<Rightarrow> v | None \<Rightarrow> junk x)"

text \<open>A memory that holds 0 at every place.\<close>

definition zeros :: "place \<Rightarrow> int32" where
  "zeros x = 0"

text \<open>\<^verbatim>\<open>getdata\<close> and \<^verbatim>\<open>putdata\<close> of both classes, then through a \<^verbatim>\<open>Person*\<close>.\<close>

definition Doctor_getdata_run ::
  "Doctor \<Rightarrow> bool \<times> 'a io_scheme \<Rightarrow> Doctor \<times> bool \<times> 'a io_scheme" where
  "Doctor_getdata_run d = (\<lambda>(failbit, s).
     case extract_word (name d) (failbit, put ''Enter Doctor Name: '' s) of
       (nm, failbit, s) \<Rightarrow>
     case extract_int (age d) (failbit, put ''Enter Age: '' s) of
       (a, failbit, s) \<Rightarrow>
     case extract_int (doctor_specialist d) (failbit, put ''Enter Specialist ID: '' s) of
       (sp, failbit, s) \<Rightarrow>
     (d\<lparr>name := nm, age := a, doctor_specialist := sp\<rparr>, failbit, s))"

definition Patient_getdata_run ::
  "Patient \<Rightarrow> bool \<times> 'a io_scheme \<Rightarrow> Patient \<times> bool \<times> 'a io_scheme" where
  "Patient_getdata_run q = (\<lambda>(failbit, s).
     case extract_word (name q) (failbit, put ''Enter Patient Name: '' s) of
       (nm, failbit, s) \<Rightarrow>
     case extract_int (age q) (failbit, put ''Enter Age: '' s) of
       (a, failbit, s) \<Rightarrow>
     case extract_word (admission_date q) (failbit, put ''Enter Admission Date: '' s) of
       (ad, failbit, s) \<Rightarrow>
     (q\<lparr>name := nm, age := a, admission_date := ad\<rparr>, failbit, s))"

definition Doctor_putdata_run ::
  "(place \<Rightarrow> int32) \<Rightarrow> addr \<Rightarrow> Doctor \<Rightarrow> 'a io_scheme \<Rightarrow> 'a io_scheme" where
  "Doctor_putdata_run junk p d s =
     put (''Doctor -> Name: '' @ name d @ '', Age: '' @ show_int (stored junk (Age p) (age d)) @
          '', Specialist ID: '' @ show_int (stored junk (Specialist p) (doctor_specialist d)) @
          '', Doctor ID: '' @ show_int (doctor_id d) @ ''\<newline>'') s"

definition Patient_putdata_run ::
  "(place \<Rightarrow> int32) \<Rightarrow> addr \<Rightarrow> Patient \<Rightarrow> 'a io_scheme \<Rightarrow> 'a io_scheme" where
  "Patient_putdata_run junk p q s =
     put (''Patient -> Name: '' @ name q @ '', Age: '' @ show_int (stored junk (Age p) (age q)) @
          '', Admission Date: '' @ admission_date q @
          '', Patient ID: '' @ show_int (patient_id q) @ ''\<newline>'') s"

definition getdata_run :: "addr \<Rightarrow> bool \<times> hospital \<Rightarrow> (bool \<times> hospital) option" where
  "getdata_run p = (\<lambda>(failbit, s).
     case heap s p of
       None \<Rightarrow> None
     | Some (DoctorObj d) \<Rightarrow>
         (case Doctor_getdata_run d (failbit, s) of
            (d', failbit, s') \<Rightarrow> Some (failbit, s'\<lparr>heap := (heap s')(p \<mapsto> DoctorObj d')\<rparr>))
     | Some (PatientObj q) \<Rightarrow>
         (case Patient_getdata_run q (failbit, s) of
            (q', failbit, s') \<Rightarrow> Some (failbit, s'\<lparr>heap := (heap s')(p \<mapsto> PatientObj q')\<rparr>)))"

definition putdata_run :: "(place \<Rightarrow> int32) \<Rightarrow> addr \<Rightarrow> hospital \<Rightarrow> hospital option" where
  "putdata_run junk p s =
     (case heap s p of
        None \<Rightarrow> None
      | Some (DoctorObj d) \<Rightarrow> Some (Doctor_putdata_run junk p d s)
      | Some (PatientObj q) \<Rightarrow> Some (Patient_putdata_run junk p q s))"

text \<open>The body of the first loop and the first two loops.  The third is \<^const>\<open>delete_loop\<close>.\<close>

definition entry_body_run ::
  "(place \<Rightarrow> int32) \<Rightarrow> int32 \<Rightarrow> bool \<times> hospital \<Rightarrow> (bool \<times> hospital) option" where
  "entry_body_run junk i = (\<lambda>(failbit, s). do {
     (choice, failbit, s) \<leftarrow>
       Some (extract_int None (failbit, put ''\<newline>Enter 1 for Doctor, 2 for Patient: '' s));
     (p, s) \<leftarrow> Some (new_person (stored junk (Choice i) choice) s);
     s \<leftarrow> Some (s\<lparr>people := (people s)(i \<mapsto> p)\<rparr>);
     p \<leftarrow> people s i;
     getdata_run p (failbit, s)
   })"

function entry_loop_run ::
  "(place \<Rightarrow> int32) \<Rightarrow> int32 \<Rightarrow> int32 \<Rightarrow> bool \<times> hospital \<Rightarrow> (bool \<times> hospital) option" where
  "entry_loop_run junk i n r =
     (if i <s n then do { r' \<leftarrow> entry_body_run junk i r; entry_loop_run junk (i + 1) n r' }
      else Some r)"
  by pat_completeness auto
termination
  by (relation "measure (\<lambda>(junk, i, n, r). nat (sint n - sint i))")
    (auto simp: sint_succ word_sless_alt)

function display_loop_run ::
  "(place \<Rightarrow> int32) \<Rightarrow> int32 \<Rightarrow> int32 \<Rightarrow> hospital \<Rightarrow> hospital option" where
  "display_loop_run junk i n s =
     (if i <s n
      then do { p \<leftarrow> people s i; s' \<leftarrow> putdata_run junk p s; display_loop_run junk (i + 1) n s' }
      else Some s)"
  by pat_completeness auto
termination
  by (relation "measure (\<lambda>(junk, i, n, s). nat (sint n - sint i))")
    (auto simp: sint_succ word_sless_alt)

declare entry_loop_run.simps [simp del] display_loop_run.simps [simp del]

text \<open>
  \<^verbatim>\<open>main\<close>.  The declaration \<^verbatim>\<open>Person* people[n]\<close> is an array of run-time length on
  the stack, a compiler extension; its slots are indeterminate at first.  The stack has
  room for \<open>stack_slots\<close> pointers, a parameter of the run.  For a count beyond it the
  process is killed by a signal when the array is reserved: nothing more is read or
  written, and \<^verbatim>\<open>main\<close> does not return.  For a negative count nothing is reserved,
  no loop runs a pass, and \<^verbatim>\<open>main\<close> goes on to the header and to \<^verbatim>\<open>return 0\<close>.
  A run ends with the exit code that \<^verbatim>\<open>main\<close> returned, or killed, in its final
  state.  \<^const>\<open>None\<close> is left for the use of a slot or an address that holds no
  object, which no input leads to.
\<close>

datatype outcome = Exit int32 hospital | Killed hospital

definition hospital_main :: "(place \<Rightarrow> int32) \<Rightarrow> nat \<Rightarrow> hospital \<Rightarrow> outcome option" where
  "hospital_main junk stack_slots s = do {
     (n, failbit, s) \<leftarrow> Some (extract_int None (False, put ''Enter number of records: '' s));
     n \<leftarrow> Some (stored junk Count n);
     if int stack_slots < sint n then Some (Killed s)
     else do {
       s \<leftarrow> Some (s\<lparr>people := Map.empty\<rparr>);
       (failbit, s) \<leftarrow> entry_loop_run junk 0 n (failbit, s);
       s \<leftarrow> Some (put ''\<newline>--- Records ---\<newline>'' s);
       s \<leftarrow> display_loop_run junk 0 n s;
       s \<leftarrow> delete_loop 0 n s;
       Some (Exit 0 s)
     }
   }"


section \<open>The transaction program (\<^verbatim>\<open>q3_transactions.cpp\<close>)\<close>

text \<open>
  \<^verbatim>\<open>class Transaction\<close> has the fields \<^verbatim>\<open>transaction_ID\<close> and \<^verbatim>\<open>date\<close>;
  \<^verbatim>\<open>IncomeTransaction\<close> and \<^verbatim>\<open>ExpenseTransaction\<close> extend it, each with a field
  \<^verbatim>\<open>amount\<close> of its own.
\<close>

record Transaction =
  transaction_ID :: int32
  date :: string

record IncomeTransaction = Transaction +
  source :: string
  amount :: double

record ExpenseTransaction = Transaction +
  category :: string
  expense_amount :: double

datatype transaction_obj = IncomeObj IncomeTransaction | ExpenseObj ExpenseTransaction

text \<open>
  The classes declare no constructor, and \<^verbatim>\<open>main\<close> creates the objects with
  \<^verbatim>\<open>new IncomeTransaction()\<close> and \<^verbatim>\<open>new ExpenseTransaction()\<close>: this
  value-initialisation sets the numbers to zero and the strings to the empty string.
\<close>

definition IncomeTransaction_ctor :: IncomeTransaction where
  "IncomeTransaction_ctor = \<lparr>transaction_ID = 0, date = [], source = [], amount = Value 0\<rparr>"

definition ExpenseTransaction_ctor :: ExpenseTransaction where
  "ExpenseTransaction_ctor = \<lparr>transaction_ID = 0, date = [], category = [], expense_amount = Value 0\<rparr>"

definition Income_recordTransaction ::
  "IncomeTransaction \<Rightarrow> 'a io_scheme \<Rightarrow> (IncomeTransaction \<times> 'a io_scheme) option" where
  "Income_recordTransaction t s = do {
     s \<leftarrow> Some (put ''\<newline>--- Recording Income Transaction ---\<newline>'' s);
     (i, s) \<leftarrow> get_int (put ''Enter Transaction ID: '' s);
     (d, s) \<leftarrow> get_word (put ''Enter Date (YYYY-MM-DD): '' s);
     (src, s) \<leftarrow> get_line (put ''Enter Source of Income: '' s);
     (a, s) \<leftarrow> get_double (put ''Enter Amount Received: '' s);
     Some (t\<lparr>transaction_ID := i, date := d, source := src, amount := a\<rparr>, s)
   }"

definition Expense_recordTransaction ::
  "ExpenseTransaction \<Rightarrow> 'a io_scheme \<Rightarrow> (ExpenseTransaction \<times> 'a io_scheme) option" where
  "Expense_recordTransaction t s = do {
     s \<leftarrow> Some (put ''\<newline>--- Recording Expense Transaction ---\<newline>'' s);
     (i, s) \<leftarrow> get_int (put ''Enter Transaction ID: '' s);
     (d, s) \<leftarrow> get_word (put ''Enter Date (YYYY-MM-DD): '' s);
     (cat, s) \<leftarrow> get_line (put ''Enter Expense Category: '' s);
     (a, s) \<leftarrow> get_double (put ''Enter Amount Spent: '' s);
     Some (t\<lparr>transaction_ID := i, date := d, category := cat, expense_amount := a\<rparr>, s)
   }"

text \<open>The text that \<^verbatim>\<open>displayInfo\<close> writes (\<^verbatim>\<open>endl\<close> is a line break).\<close>

definition Income_text :: "IncomeTransaction \<Rightarrow> string" where
  "Income_text t =
     ''\<newline>[Income Transaction]\<newline>'' @
     ''Transaction ID: '' @ show_int (transaction_ID t) @ ''\<newline>'' @
     ''Date: '' @ date t @ ''\<newline>'' @
     ''Source: '' @ source t @ ''\<newline>'' @
     ''Amount Received: '' @ show_double (amount t) @ ''\<newline>''"

definition Expense_text :: "ExpenseTransaction \<Rightarrow> string" where
  "Expense_text t =
     ''\<newline>[Expense Transaction]\<newline>'' @
     ''Transaction ID: '' @ show_int (transaction_ID t) @ ''\<newline>'' @
     ''Date: '' @ date t @ ''\<newline>'' @
     ''Category: '' @ category t @ ''\<newline>'' @
     ''Amount Spent: '' @ show_double (expense_amount t) @ ''\<newline>''"

definition Income_displayInfo :: "IncomeTransaction \<Rightarrow> 'a io_scheme \<Rightarrow> 'a io_scheme" where
  "Income_displayInfo t s = put (Income_text t) s"

definition Expense_displayInfo :: "ExpenseTransaction \<Rightarrow> 'a io_scheme \<Rightarrow> 'a io_scheme" where
  "Expense_displayInfo t s = put (Expense_text t) s"

text \<open>
  The state of the program: the streams, the heap and the registry
  \<^verbatim>\<open>vector<Transaction*> transactions\<close> of \<^verbatim>\<open>main\<close>.
\<close>

record ledger = "transaction_obj memory" +
  transactions :: "addr list"

text \<open>The virtual calls through a \<^verbatim>\<open>Transaction*\<close>.\<close>

definition recordTransaction :: "addr \<Rightarrow> ledger \<Rightarrow> ledger option" where
  "recordTransaction p s =
     (case heap s p of
        None \<Rightarrow> None
      | Some (IncomeObj t) \<Rightarrow>
          do { (t', s') \<leftarrow> Income_recordTransaction t s;
               Some (s'\<lparr>heap := (heap s')(p \<mapsto> IncomeObj t')\<rparr>) }
      | Some (ExpenseObj t) \<Rightarrow>
          do { (t', s') \<leftarrow> Expense_recordTransaction t s;
               Some (s'\<lparr>heap := (heap s')(p \<mapsto> ExpenseObj t')\<rparr>) })"

definition displayInfo :: "addr \<Rightarrow> ledger \<Rightarrow> ledger option" where
  "displayInfo p s =
     (case heap s p of
        None \<Rightarrow> None
      | Some (IncomeObj t) \<Rightarrow> Some (Income_displayInfo t s)
      | Some (ExpenseObj t) \<Rightarrow> Some (Expense_displayInfo t s))"

text \<open>\<^verbatim>\<open>for (auto& tr : transactions) tr->displayInfo();\<close>\<close>

fun display_all :: "addr list \<Rightarrow> ledger \<Rightarrow> ledger option" where
  "display_all [] s = Some s"
| "display_all (tr # trs) s = do { s' \<leftarrow> displayInfo tr s; display_all trs s' }"

text \<open>\<^verbatim>\<open>for (auto& tr : transactions) delete tr;\<close>\<close>

fun delete_all :: "addr list \<Rightarrow> ledger \<Rightarrow> ledger option" where
  "delete_all [] s = Some s"
| "delete_all (tr # trs) s = do { s' \<leftarrow> delete_obj tr s; delete_all trs s' }"

definition menu_text :: string where
  "menu_text =
     ''\<newline>===== Transaction Menu =====\<newline>'' @
     ''1. Record Income Transaction\<newline>'' @
     ''2. Record Expense Transaction\<newline>'' @
     ''3. Display All Transactions\<newline>'' @
     ''4. Exit\<newline>'' @
     ''Enter your choice: ''"

text \<open>
  One pass through the body of the \<^verbatim>\<open>do ... while\<close> loop: the menu, the choice and
  the \<^verbatim>\<open>switch\<close>.  It returns the choice that it read, which the loop tests.
\<close>

definition menu_body :: "ledger \<Rightarrow> (int32 \<times> ledger) option" where
  "menu_body s = do {
     (choice, s) \<leftarrow> get_int (put menu_text s);
     s \<leftarrow>
       (if choice = 1 then do {
          (t, s) \<leftarrow> Some (new_obj (IncomeObj IncomeTransaction_ctor) s);
          s \<leftarrow> recordTransaction t s;
          Some (s\<lparr>transactions := transactions s @ [t]\<rparr>)
        }
        else if choice = 2 then do {
          (t, s) \<leftarrow> Some (new_obj (ExpenseObj ExpenseTransaction_ctor) s);
          s \<leftarrow> recordTransaction t s;
          Some (s\<lparr>transactions := transactions s @ [t]\<rparr>)
        }
        else if choice = 3 then
          display_all (transactions s) (put ''\<newline>===== Transaction Records =====\<newline>'' s)
        else if choice = 4 then Some (put ''Exiting...\<newline>'' s)
        else Some (put ''Invalid choice! Try again.\<newline>'' s));
     Some (choice, s)
   }"

text \<open>
  The loop \<^verbatim>\<open>do { ... } while (choice != 4)\<close>.  Every pass consumes the choice it
  reads, so the loop ends on every finite input: with the final state when a pass reads
  4, and with \<^const>\<open>None\<close> when the input ends first.
\<close>

lemma cin_put: "cin (put text s) = cin s"
  by (simp add: put_def)

lemma get_int_shrinks: "get_int s = Some (v, s') \<Longrightarrow> length (cin s') < length (cin s)"
  by (auto simp: get_int_def split: list.splits cin_item.splits)

lemma get_word_shrinks: "get_word s = Some (v, s') \<Longrightarrow> length (cin s') < length (cin s)"
  by (auto simp: get_word_def split: list.splits cin_item.splits)

lemma get_line_shrinks: "get_line s = Some (v, s') \<Longrightarrow> length (cin s') < length (cin s)"
  by (auto simp: get_line_def split: list.splits cin_item.splits)

lemma get_double_shrinks: "get_double s = Some (v, s') \<Longrightarrow> length (cin s') < length (cin s)"
  by (auto simp: get_double_def split: list.splits cin_item.splits)

lemmas get_shrinks = get_int_shrinks get_word_shrinks get_line_shrinks get_double_shrinks

lemma cin_Income_recordTransaction:
  "Income_recordTransaction t s = Some (t', s') \<Longrightarrow> length (cin s') < length (cin s)"
  by (auto simp: Income_recordTransaction_def bind_eq_Some_conv cin_put dest!: get_shrinks)

lemma cin_Expense_recordTransaction:
  "Expense_recordTransaction t s = Some (t', s') \<Longrightarrow> length (cin s') < length (cin s)"
  by (auto simp: Expense_recordTransaction_def bind_eq_Some_conv cin_put dest!: get_shrinks)

lemma cin_recordTransaction:
  "recordTransaction p s = Some s' \<Longrightarrow> length (cin s') < length (cin s)"
  by (auto simp: recordTransaction_def bind_eq_Some_conv
      split: option.splits transaction_obj.splits
      dest!: cin_Income_recordTransaction cin_Expense_recordTransaction)

lemma cin_displayInfo: "displayInfo p s = Some s' \<Longrightarrow> cin s' = cin s"
  by (auto simp: displayInfo_def Income_displayInfo_def Expense_displayInfo_def cin_put
      split: option.splits transaction_obj.splits)

lemma cin_display_all: "display_all trs s = Some s' \<Longrightarrow> cin s' = cin s"
  by (induction trs arbitrary: s) (auto simp: bind_eq_Some_conv dest: cin_displayInfo)

lemma cin_menu_body: "menu_body s = Some (c, s') \<Longrightarrow> length (cin s') < length (cin s)"
  by (auto simp: menu_body_def new_obj_def bind_eq_Some_conv cin_put
      split: if_splits
      dest!: get_int_shrinks cin_recordTransaction cin_display_all)

function menu_loop :: "ledger \<Rightarrow> ledger option" where
  "menu_loop s = do { (choice, s') \<leftarrow> menu_body s; if choice \<noteq> 4 then menu_loop s' else Some s' }"
  by pat_completeness auto
termination
  by (relation "measure (\<lambda>s. length (cin s))") (auto dest: cin_menu_body)

declare menu_loop.simps [simp del]

definition ledger_init :: "cin_item list \<Rightarrow> ledger" where
  "ledger_init input =
     \<lparr>cin = input, cout = [], heap = Map.empty, next_addr = 0, transactions = []\<rparr>"

definition transactions_main :: "ledger \<Rightarrow> (int32 \<times> ledger) option" where
  "transactions_main s = do {
     s \<leftarrow> menu_loop s;
     s \<leftarrow> delete_all (transactions s) s;
     Some (0, s)
   }"


section \<open>The library program (\<^verbatim>\<open>q4_library.cpp\<close>)\<close>

record Book =
  title :: string
  author :: string
  ISBN :: string
  isAvailable :: bool

text \<open>\<^verbatim>\<open>Book(string t = "", string a = "", string i = "")\<close>: a new book is available.\<close>

definition Book_new :: "string \<Rightarrow> string \<Rightarrow> string \<Rightarrow> Book" where
  "Book_new t a i = \<lparr>title = t, author = a, ISBN = i, isAvailable = True\<rparr>"

definition checkOut :: "Book \<Rightarrow> bool \<times> Book" where
  "checkOut b = (if isAvailable b then (True, b\<lparr>isAvailable := False\<rparr>) else (False, b))"

definition Book_returnBook :: "Book \<Rightarrow> Book" where
  "Book_returnBook b = b\<lparr>isAvailable := True\<rparr>"

text \<open>
  A patron keeps \<^verbatim>\<open>vector<Book*> borrowedBooks\<close>: pointers to books that other
  patrons can reach too, so the books live in a store and the list holds addresses.
\<close>

record Patron =
  patron_name :: string
  cardNumber :: string
  borrowedBooks :: "addr list"

record library = io +
  books :: "addr \<rightharpoonup> Book"

definition Patron_new :: "string \<Rightarrow> string \<Rightarrow> Patron" where
  "Patron_new n c = \<lparr>patron_name = n, cardNumber = c, borrowedBooks = []\<rparr>"

text \<open>
  \<^verbatim>\<open>void Patron::borrowBook(Book &book)\<close>.  The result is \<^const>\<open>None\<close> when the
  reference does not denote a book of the store.
\<close>

definition borrowBook :: "addr \<Rightarrow> Patron \<Rightarrow> library \<Rightarrow> (Patron \<times> library) option" where
  \<open>borrowBook book p s =
     (case books s book of
        None \<Rightarrow> None
      | Some b \<Rightarrow>
          (case checkOut b of
             (ok, b') \<Rightarrow>
               let s1 = s\<lparr>books := (books s)(book \<mapsto> b')\<rparr> in
               if ok then
                 Some (p\<lparr>borrowedBooks := borrowedBooks p @ [book]\<rparr>,
                       put (patron_name p @ '' borrowed "'' @ title b' @ ''"\<newline>'') s1)
               else
                 Some (p, put (''Sorry, "'' @ title b' @ ''" is not available.\<newline>'') s1)))\<close>


text \<open>The books and patrons that \<^verbatim>\<open>main\<close> creates, and the store holding the books.\<close>

definition b1 :: Book where
  "b1 = Book_new ''The Great Gatsby'' ''F. Scott Fitzgerald'' ''12345''"

definition b2 :: Book where
  "b2 = Book_new ''1984'' ''George Orwell'' ''67890''"

definition p1 :: Patron where
  "p1 = Patron_new ''Alice'' ''P001''"

definition p2 :: Patron where
  "p2 = Patron_new ''Bob'' ''P002''"

definition lib0 :: library where
  "lib0 = \<lparr>cin = [], cout = [], books = [0 \<mapsto> b1, 1 \<mapsto> b2]\<rparr>"

text \<open>The store once the first book is checked out.\<close>

definition lib1 :: library where
  "lib1 = lib0\<lparr>books := (books lib0)(0 \<mapsto> b1\<lparr>isAvailable := False\<rparr>)\<rparr>"

section \<open>Sessions of the hospital program\<close>

text \<open>
  What a user types for one record: the choice 1 with the name, the age and the specialist
  id of a Doctor, or any other choice with the name, the age and the admission date of a
  Patient.  \<open>encode_entry\<close> is the input that the entry makes, \<open>valid_entry\<close> says that
  the choice of a Patient entry is not 1, and \<open>entry_prompts\<close> is what the program writes
  while it reads the entry.
\<close>

datatype entry = DoctorEntry string int32 int32 | PatientEntry int32 string int32 string

fun encode_entry :: "entry \<Rightarrow> cin_item list" where
  "encode_entry (DoctorEntry nm a sp) = [IntItem 1, WordItem nm, IntItem a, IntItem sp]"
| "encode_entry (PatientEntry c nm a ad) = [IntItem c, WordItem nm, IntItem a, WordItem ad]"

fun valid_entry :: "entry \<Rightarrow> bool" where
  "valid_entry (DoctorEntry nm a sp) = True"
| "valid_entry (PatientEntry c nm a ad) = (c \<noteq> 1)"

fun entry_prompts :: "entry \<Rightarrow> string" where
  "entry_prompts (DoctorEntry nm a sp) =
     ''\<newline>Enter 1 for Doctor, 2 for Patient: Enter Doctor Name: Enter Age: Enter Specialist ID: ''"
| "entry_prompts (PatientEntry c nm a ad) =
     ''\<newline>Enter 1 for Doctor, 2 for Patient: Enter Patient Name: Enter Age: Enter Admission Date: ''"

text \<open>
  The state that one pass of the entry loop is expected to leave for an entry read at the
  index \<open>i\<close> (the input apart), and the state after a list of entries read at the indices
  \<open>i\<close>, \<open>i + 1\<close>, ...
\<close>

fun entry_state :: "entry \<Rightarrow> int32 \<Rightarrow> hospital \<Rightarrow> hospital" where
  "entry_state (DoctorEntry nm a sp) i s =
     s\<lparr>cout := cout s @ entry_prompts (DoctorEntry nm a sp),
       heap := (heap s)(next_addr s \<mapsto>
         DoctorObj \<lparr>name = nm, age = Some a, doctor_specialist = Some sp,
                    doctor_id = doctor_count s + 1\<rparr>),
       next_addr := Suc (next_addr s),
       doctor_count := doctor_count s + 1,
       people := (people s)(i \<mapsto> next_addr s)\<rparr>"
| "entry_state (PatientEntry c nm a ad) i s =
     s\<lparr>cout := cout s @ entry_prompts (PatientEntry c nm a ad),
       heap := (heap s)(next_addr s \<mapsto>
         PatientObj \<lparr>name = nm, age = Some a, admission_date = ad,
                     patient_id = patient_count s + 1\<rparr>),
       next_addr := Suc (next_addr s),
       patient_count := patient_count s + 1,
       people := (people s)(i \<mapsto> next_addr s)\<rparr>"

fun entries_state :: "entry list \<Rightarrow> int32 \<Rightarrow> hospital \<Rightarrow> hospital" where
  "entries_state [] i s = s"
| "entries_state (e # es) i s = entries_state es (i + 1) (entry_state e i s)"

text \<open>
  The records expected for a list of entries, in creation order, when the static counters
  are \<open>dc\<close> and \<open>pc\<close> before the first one is created.
\<close>

fun objects_of :: "entry list \<Rightarrow> int32 \<Rightarrow> int32 \<Rightarrow> person_obj list" where
  "objects_of [] dc pc = []"
| "objects_of (DoctorEntry nm a sp # es) dc pc =
     DoctorObj \<lparr>name = nm, age = Some a, doctor_specialist = Some sp, doctor_id = dc + 1\<rparr> #
     objects_of es (dc + 1) pc"
| "objects_of (PatientEntry c nm a ad # es) dc pc =
     PatientObj \<lparr>name = nm, age = Some a, admission_date = ad, patient_id = pc + 1\<rparr> #
     objects_of es dc (pc + 1)"

text \<open>
  The array slots \<open>i\<close>, \<open>i + 1\<close>, ... point to the addresses \<open>a\<close>, \<open>a + 1\<close>, ..., which hold
  the given objects.
\<close>

definition slots :: "hospital \<Rightarrow> int32 \<Rightarrow> addr \<Rightarrow> person_obj list \<Rightarrow> bool" where
  "slots s i a objs =
     (\<forall>k < length objs. people s (i + of_nat k) = Some (a + k) \<and> heap s (a + k) = Some (objs ! k))"

text \<open>The line that \<^verbatim>\<open>putdata\<close> writes for an object, whichever its class.\<close>

definition person_line :: "person_obj \<Rightarrow> string option" where
  "person_line obj = (case obj of DoctorObj d \<Rightarrow> Doctor_line d | PatientObj q \<Rightarrow> Patient_line q)"

text \<open>The sequence numbers of the Doctors, and of the Patients, in a list of objects.\<close>

fun doctor_ids :: "person_obj list \<Rightarrow> int32 list" where
  "doctor_ids [] = []"
| "doctor_ids (DoctorObj d # objs) = doctor_id d # doctor_ids objs"
| "doctor_ids (PatientObj q # objs) = doctor_ids objs"

fun patient_ids :: "person_obj list \<Rightarrow> int32 list" where
  "patient_ids [] = []"
| "patient_ids (DoctorObj d # objs) = patient_ids objs"
| "patient_ids (PatientObj q # objs) = patient_id q # patient_ids objs"

section \<open>Sessions of the transaction program\<close>

text \<open>
  What a user types in one pass of the menu loop, the choice 4 apart: the choice 1 with the
  four fields of an income, the choice 2 with the four fields of an expense, the choice 3,
  or a choice that is none of 1, 2, 3 and 4.  \<open>encode_event\<close> is the input that the event
  makes and \<open>choice_of\<close> the choice that the pass reads.
\<close>

datatype menu_event =
  NewIncome int32 string string double
| NewExpense int32 string string double
| DisplayAll
| Invalid int32

fun encode_event :: "menu_event \<Rightarrow> cin_item list" where
  "encode_event (NewIncome i d src a) = [IntItem 1, IntItem i, WordItem d, LineItem src, DoubleItem a]"
| "encode_event (NewExpense i d cat a) = [IntItem 2, IntItem i, WordItem d, LineItem cat, DoubleItem a]"
| "encode_event DisplayAll = [IntItem 3]"
| "encode_event (Invalid c) = [IntItem c]"

fun valid_event :: "menu_event \<Rightarrow> bool" where
  "valid_event (Invalid c) = (c \<noteq> 1 \<and> c \<noteq> 2 \<and> c \<noteq> 3 \<and> c \<noteq> 4)"
| "valid_event e = True"

fun choice_of :: "menu_event \<Rightarrow> int32" where
  "choice_of (NewIncome i d src a) = 1"
| "choice_of (NewExpense i d cat a) = 2"
| "choice_of DisplayAll = 3"
| "choice_of (Invalid c) = c"

text \<open>
  The record that an event appends to the registry, if any, with the fields as typed;
  the records of a session, in the order of the events.
\<close>

fun record_of :: "menu_event \<Rightarrow> transaction_obj list" where
  "record_of (NewIncome i d src a) =
     [IncomeObj \<lparr>transaction_ID = i, date = d, source = src, amount = a\<rparr>]"
| "record_of (NewExpense i d cat a) =
     [ExpenseObj \<lparr>transaction_ID = i, date = d, category = cat, expense_amount = a\<rparr>]"
| "record_of DisplayAll = []"
| "record_of (Invalid c) = []"

definition records :: "menu_event list \<Rightarrow> transaction_obj list" where
  "records es = concat (map record_of es)"

text \<open>The text that \<^verbatim>\<open>displayInfo\<close> writes for an object, whichever its class.\<close>

definition transaction_text :: "transaction_obj \<Rightarrow> string" where
  "transaction_text obj = (case obj of IncomeObj t \<Rightarrow> Income_text t | ExpenseObj t \<Rightarrow> Expense_text t)"


text \<open>
  What a pass is expected to write for an event when the registry holds the objects
  \<open>objs\<close>, and what a session of events writes.
\<close>

fun event_output :: "transaction_obj list \<Rightarrow> menu_event \<Rightarrow> string" where
  "event_output objs (NewIncome i d src a) =
     menu_text @ ''\<newline>--- Recording Income Transaction ---\<newline>'' @
     ''Enter Transaction ID: Enter Date (YYYY-MM-DD): Enter Source of Income: Enter Amount Received: ''"
| "event_output objs (NewExpense i d cat a) =
     menu_text @ ''\<newline>--- Recording Expense Transaction ---\<newline>'' @
     ''Enter Transaction ID: Enter Date (YYYY-MM-DD): Enter Expense Category: Enter Amount Spent: ''"
| "event_output objs DisplayAll =
     menu_text @ ''\<newline>===== Transaction Records =====\<newline>'' @
     concat (map transaction_text objs)"
| "event_output objs (Invalid c) = menu_text @ ''Invalid choice! Try again.\<newline>''"

fun session_output :: "transaction_obj list \<Rightarrow> menu_event list \<Rightarrow> string" where
  "session_output objs [] = []"
| "session_output objs (e # es) = event_output objs e @ session_output (objs @ record_of e) es"

text \<open>
  The state after \<open>k\<close> passes of the menu loop, each of which read a choice other than 4,
  so that the loop went on; \<^const>\<open>None\<close> when a pass fails or reads 4 before.
\<close>

fun menu_steps :: "nat \<Rightarrow> ledger \<Rightarrow> ledger option" where
  "menu_steps 0 s = Some s"
| "menu_steps (Suc k) s =
     do { (choice, s') \<leftarrow> menu_body s; if choice \<noteq> 4 then menu_steps k s' else None }"

text \<open>
  The registry holds the given objects: they lie at the addresses 0, 1, ... in the heap,
  which holds nothing else, and the registry lists these addresses in order.
\<close>

definition holds :: "ledger \<Rightarrow> transaction_obj list \<Rightarrow> bool" where
  "holds s objs =
     (transactions s = [0..<length objs] \<and> next_addr s = length objs \<and>
      heap s = (\<lambda>p. if p < length objs then Some (objs ! p) else None))"

section \<open>What an operation leaves unchanged\<close>

text \<open>Two states that differ in the streams at most.\<close>

definition streams_only :: "'a io_scheme \<Rightarrow> 'a io_scheme \<Rightarrow> bool" where
  "streams_only s s' = (s' = s\<lparr>cin := cin s', cout := cout s'\<rparr>)"

text \<open>
  A state of the hospital program in which one Doctor has been entered and the entry of a
  Patient is waiting on the input, and a state of the transaction program in which one
  income has been recorded and the choice 3 is waiting.
\<close>

definition ward_example :: hospital where
  "ward_example =
     \<lparr>cin = [IntItem 2, WordItem ''Bo'', IntItem 5, WordItem ''2024-01-01''], cout = [],
      heap = [0 \<mapsto> DoctorObj \<lparr>name = ''Asha'', age = Some 34, doctor_specialist = Some 7,
                                  doctor_id = 1\<rparr>],
      next_addr = 1, doctor_count = 1, patient_count = 0, people = [0 \<mapsto> 0]\<rparr>"

definition ledger_example :: ledger where
  "ledger_example =
     \<lparr>cin = [IntItem 3], cout = [],
      heap = [0 \<mapsto> IncomeObj \<lparr>transaction_ID = 1, date = ''2024-01-01'', source = ''Salary'',
                                  amount = Value 1000\<rparr>],
      next_addr = 1, transactions = [0]\<rparr>"

section \<open>Properties of the library program\<close>

text \<open>
  Claim C10.  \<^verbatim>\<open>Book::checkOut\<close> returns true exactly when the book was available,
  and then the book is unavailable; otherwise it returns false and the book is as it
  was.  \<^verbatim>\<open>Patron::borrowBook\<close> appends the book's address to the borrowed list exactly
  when \<^verbatim>\<open>checkOut\<close> returned true and leaves the list as it was otherwise; the
  book in the store is the one \<^verbatim>\<open>checkOut\<close> left, every other book is untouched.
\<close>

theorem checkOut_borrowBook:
  "fst (checkOut b) = isAvailable b \<and>
   (isAvailable b \<longrightarrow> \<not> isAvailable (snd (checkOut b))) \<and>
   (\<not> isAvailable b \<longrightarrow> snd (checkOut b) = b) \<and>
   title (snd (checkOut b)) = title b \<and>
   author (snd (checkOut b)) = author b \<and>
   ISBN (snd (checkOut b)) = ISBN b \<and>
   (books s book = Some b \<longrightarrow>
     (\<exists>p' s'. borrowBook book p s = Some (p', s') \<and>
        borrowedBooks p' =
          (if fst (checkOut b) then borrowedBooks p @ [book] else borrowedBooks p) \<and>
        patron_name p' = patron_name p \<and> cardNumber p' = cardNumber p \<and>
        books s' book = Some (snd (checkOut b)) \<and>
        (\<forall>other. other \<noteq> book \<longrightarrow> books s' other = books s other)))"
  by (cases "isAvailable b") (simp_all add: checkOut_def borrowBook_def put_def)

theorem checkOut_borrowBook_witness:
  "books lib0 0 = Some b1 \<and> isAvailable b1 \<and> fst (checkOut b1) \<and>
   (\<exists>p' s'. borrowBook 0 p1 lib0 = Some (p', s') \<and> borrowedBooks p' = [0] \<and>
      books s' 0 = Some (b1\<lparr>isAvailable := False\<rparr>) \<and> books s' 1 = Some b2) \<and>
   books lib1 0 = Some (b1\<lparr>isAvailable := False\<rparr>) \<and>
   \<not> fst (checkOut (b1\<lparr>isAvailable := False\<rparr>)) \<and>
   (\<exists>p' s'. borrowBook 0 p2 lib1 = Some (p', s') \<and> borrowedBooks p' = [] \<and>
      books s' 0 = Some (b1\<lparr>isAvailable := False\<rparr>))"
  using checkOut_borrowBook [of b1 lib0 0 p1]
    checkOut_borrowBook [of "b1\<lparr>isAvailable := False\<rparr>" lib1 0 p2]
  by (auto simp: lib0_def lib1_def b1_def b2_def p1_def p2_def Book_new_def Patron_new_def)

section \<open>Streams, heap and number output: basic facts\<close>

lemma put_put: "put t2 (put t1 s) = put (t1 @ t2) s"
  by (simp add: put_def)

lemma put_Nil: "put [] s = s"
  by (simp add: put_def)

lemma heap_put: "heap (put text s) = heap s"
  by (simp add: put_def)

lemma get_int_Some:
  "get_int s = Some (v, s') \<Longrightarrow> \<exists>rest. cin s = IntItem v # rest \<and> s' = s\<lparr>cin := rest\<rparr>"
  by (auto simp: get_int_def split: list.splits cin_item.splits)

lemma show_nat_small: "n < 10 \<Longrightarrow> show_nat n = [digit_char n]"
  by (simp add: show_nat.simps)

lemma show_nat_big: "10 \<le> n \<Longrightarrow> show_nat n = show_nat (n div 10) @ [digit_char (n mod 10)]"
  by (subst show_nat.simps) simp

lemmas show_eval = show_nat_small show_nat_big digit_char_def show_int_def

lemmas double_eval = show_value_def decimal_exponent_def pow10_def round_half_even_def
  fixed_notation_def scientific_notation_def strip_zeros_def with_fraction_def Let_def

lemma show_value_1000: "show_value 1000 = ''1000''"
  by (simp add: show_eval double_eval)


lemma sint_incr: "sint (c + 1) = sint c + 1" if "sint c < 2 ^ 31 - 1" for c :: int32
proof -
  have "c <s 2147483647" using that by (simp add: word_sless_alt)
  then show ?thesis by (rule sint_succ)
qed

lemma show_int_0: "show_int 0 = ''0''" by code_simp

lemma show_int_1: "show_int 1 = ''1''" by code_simp

lemma show_int_7: "show_int 7 = ''7''" by code_simp

lemma show_int_34: "show_int 34 = ''34''" by code_simp



lemma show_int_5: "show_int 5 = ''5''" by code_simp

section \<open>Properties of the hospital program\<close>

lemma entry_body_entry:
  "valid_entry e \<Longrightarrow>
   entry_body i (s\<lparr>cin := encode_entry e @ rest\<rparr>) = Some ((entry_state e i s)\<lparr>cin := rest\<rparr>)"
  by (cases e)
    (simp_all add: entry_body_def get_int_def get_word_def put_def new_person_def new_Doctor_def
      new_Patient_def Doctor_ctor_def Patient_ctor_def new_obj_def getdata_def
      Doctor_getdata_def Patient_getdata_def)

lemma entry_loop_entries:
  "list_all valid_entry es \<Longrightarrow> length es = nat (sint n - sint i) \<Longrightarrow>
   entry_loop i n (s\<lparr>cin := concat (map encode_entry es) @ rest\<rparr>) =
     Some ((entries_state es i s)\<lparr>cin := rest\<rparr>)"
proof (induction es arbitrary: i s)
  case Nil
  then have "\<not> i <s n" by (simp add: word_sless_alt)
  then show ?case by (simp add: entry_loop.simps)
next
  case (Cons e es)
  then have lt: "i <s n" by (simp add: word_sless_alt)
  have step: "entry_body i (s\<lparr>cin := encode_entry e @ (concat (map encode_entry es) @ rest)\<rparr>) =
      Some ((entry_state e i s)\<lparr>cin := concat (map encode_entry es) @ rest\<rparr>)"
    using Cons.prems(1) by (intro entry_body_entry) simp
  have len: "length es = nat (sint n - sint (i + 1))"
    using Cons.prems(2) sint_succ [OF lt] by simp
  have "entry_loop (i + 1) n ((entry_state e i s)\<lparr>cin := concat (map encode_entry es) @ rest\<rparr>) =
      Some ((entries_state es (i + 1) (entry_state e i s))\<lparr>cin := rest\<rparr>)"
    using Cons.IH [OF _ len] Cons.prems(1) by simp
  with lt step show ?case
    by (subst entry_loop.simps) simp
qed

lemma length_objects_of: "length (objects_of es dc pc) = length es"
  by (induction es dc pc rule: objects_of.induct) simp_all

lemma next_addr_entries_state: "next_addr (entries_state es i s) = next_addr s + length es"
proof (induction es arbitrary: i s)
  case (Cons e es)
  then show ?case by (cases e) simp_all
qed simp

lemma heap_entries_state: "a < next_addr s \<Longrightarrow> heap (entries_state es i s) a = heap s a"
proof (induction es arbitrary: i s)
  case (Cons e es)
  then show ?case by (cases e) simp_all
qed simp

lemma people_entries_state:
  "sint j < sint i \<Longrightarrow> length es = nat (sint n - sint i) \<Longrightarrow>
   people (entries_state es i s) j = people s j" for n :: int32
proof (induction es arbitrary: i s)
  case Nil
  then show ?case by simp
next
  case (Cons e es)
  then have lt: "i <s n" by (simp add: word_sless_alt)
  have ne: "j \<noteq> i" using Cons.prems(1) by auto
  have "people (entries_state es (i + 1) (entry_state e i s)) j = people (entry_state e i s) j"
    using Cons.prems sint_succ [OF lt] by (intro Cons.IH) simp_all
  also have "\<dots> = people s j" using ne by (cases e) simp_all
  finally show ?case by simp
qed

lemma slots_entries_state:
  "length es = nat (sint n - sint i) \<Longrightarrow>
   slots (entries_state es i s) i (next_addr s) (objects_of es (doctor_count s) (patient_count s))"
  for n :: int32
proof (induction es arbitrary: i s)
  case Nil
  then show ?case by (simp add: slots_def)
next
  case (Cons e es)
  then have lt: "i <s n" by (simp add: word_sless_alt)
  let ?s1 = "entry_state e i s"
  let ?objs = "objects_of es (doctor_count ?s1) (patient_count ?s1)"
  have len: "length es = nat (sint n - sint (i + 1))"
    using Cons.prems sint_succ [OF lt] by simp
  have tail: "slots (entries_state es (i + 1) ?s1) (i + 1) (next_addr ?s1) ?objs"
    by (rule Cons.IH [OF len])
  have next1: "next_addr ?s1 = Suc (next_addr s)" by (cases e) simp_all
  have objs: "objects_of (e # es) (doctor_count s) (patient_count s) =
      the (heap ?s1 (next_addr s)) # ?objs"
    by (cases e) simp_all
  have head_people: "people (entries_state es (i + 1) ?s1) i = Some (next_addr s)"
  proof -
    have "people (entries_state es (i + 1) ?s1) i = people ?s1 i"
      using len sint_succ [OF lt] by (intro people_entries_state [where n = n]) simp_all
    then show ?thesis by (cases e) simp_all
  qed
  have head_heap: "heap (entries_state es (i + 1) ?s1) (next_addr s) = heap ?s1 (next_addr s)"
    by (rule heap_entries_state) (simp add: next1)
  have head_some: "heap ?s1 (next_addr s) = Some (the (heap ?s1 (next_addr s)))"
    by (cases e) simp_all
  show ?case
    unfolding slots_def
  proof (intro allI impI)
    fix k
    assume k: "k < length (objects_of (e # es) (doctor_count s) (patient_count s))"
    show "people (entries_state (e # es) i s) (i + of_nat k) = Some (next_addr s + k) \<and>
        heap (entries_state (e # es) i s) (next_addr s + k) =
        Some (objects_of (e # es) (doctor_count s) (patient_count s) ! k)"
    proof (cases k)
      case 0
      with head_people head_heap head_some objs show ?thesis by simp
    next
      case (Suc k')
      with k objs have "k' < length ?objs" by simp
      with tail have "people (entries_state es (i + 1) ?s1) (i + 1 + of_nat k') = Some (next_addr ?s1 + k') \<and>
          heap (entries_state es (i + 1) ?s1) (next_addr ?s1 + k') = Some (?objs ! k')"
        by (simp add: slots_def)
      with Suc objs next1 show ?thesis by (simp add: add.assoc)
    qed
  qed
qed

lemma putdata_line:
  "heap s p = Some obj \<Longrightarrow> person_line obj = Some line \<Longrightarrow> putdata p s = Some (put line s)"
  by (cases obj) (simp_all add: putdata_def person_line_def Doctor_putdata_def Patient_putdata_def)

lemma slots_tail:
  "slots s i a (obj # objs) \<Longrightarrow> slots s (i + 1) (Suc a) objs"
  unfolding slots_def
proof (intro allI impI)
  fix k
  assume all: "\<forall>k<length (obj # objs).
      people s (i + of_nat k) = Some (a + k) \<and> heap s (a + k) = Some ((obj # objs) ! k)"
    and k: "k < length objs"
  from k have "Suc k < length (obj # objs)" by simp
  with all have "people s (i + of_nat (Suc k)) = Some (a + Suc k) \<and>
      heap s (a + Suc k) = Some ((obj # objs) ! Suc k)"
    by blast
  then show "people s (i + 1 + of_nat k) = Some (Suc a + k) \<and> heap s (Suc a + k) = Some (objs ! k)"
    by (simp add: add.assoc)
qed

lemma slots_head: "slots s i a (obj # objs) \<Longrightarrow> people s i = Some a \<and> heap s a = Some obj"
  by (auto simp: slots_def)

lemma slots_put: "slots (put text s) i a objs = slots s i a objs"
  by (simp add: slots_def put_def)

lemma display_loop_slots:
  "slots s i a objs \<Longrightarrow> length objs = nat (sint n - sint i) \<Longrightarrow>
   map person_line objs = map Some lines \<Longrightarrow>
   display_loop i n s = Some (put (concat lines) s)"
proof (induction objs arbitrary: i a s lines)
  case Nil
  then have "\<not> i <s n" by (simp add: word_sless_alt)
  with Nil show ?case by (simp add: display_loop.simps put_Nil)
next
  case (Cons obj objs)
  then have lt: "i <s n" by (simp add: word_sless_alt)
  from Cons.prems(3) obtain line rest where lines: "lines = line # rest"
    and line: "person_line obj = Some line" and rest: "map person_line objs = map Some rest"
    by (cases lines) auto
  from slots_head [OF Cons.prems(1)] have p: "people s i = Some a" and obj: "heap s a = Some obj"
    by simp_all
  have shown: "putdata a s = Some (put line s)" by (rule putdata_line [OF obj line])
  have len: "length objs = nat (sint n - sint (i + 1))"
    using Cons.prems(2) sint_succ [OF lt] by simp
  have "slots (put line s) (i + 1) (Suc a) objs"
    using slots_tail [OF Cons.prems(1)] by (simp add: slots_put)
  from Cons.IH [OF this len rest]
  have "display_loop (i + 1) n (put line s) = Some (put (concat rest) (put line s))" .
  with lt p shown lines show ?case
    by (subst display_loop.simps) (simp add: put_put)
qed

lemma delete_loop_slots:
  "slots s i a objs \<Longrightarrow> length objs = nat (sint n - sint i) \<Longrightarrow>
   delete_loop i n s =
     Some (s\<lparr>heap := (\<lambda>x. if a \<le> x \<and> x < a + length objs then None else heap s x)\<rparr>)"
proof (induction objs arbitrary: i a s)
  case Nil
  then have "\<not> i <s n" by (simp add: word_sless_alt)
  moreover have "(\<lambda>x. if a \<le> x \<and> x < a + length ([] :: person_obj list) then None else heap s x) = heap s"
    by (rule ext) auto
  ultimately show ?case by (simp add: delete_loop.simps)
next
  case (Cons obj objs)
  then have lt: "i <s n" by (simp add: word_sless_alt)
  from slots_head [OF Cons.prems(1)] have p: "people s i = Some a" and obj: "heap s a = Some obj"
    by simp_all
  let ?s1 = "s\<lparr>heap := (heap s)(a := None)\<rparr>"
  have del: "delete_obj a s = Some ?s1" using obj by (simp add: delete_obj_def)
  have len: "length objs = nat (sint n - sint (i + 1))"
    using Cons.prems(2) sint_succ [OF lt] by simp
  have "slots ?s1 (i + 1) (Suc a) objs"
    using slots_tail [OF Cons.prems(1)] by (simp add: slots_def)
  from Cons.IH [OF this len]
  have "delete_loop (i + 1) n ?s1 =
      Some (?s1\<lparr>heap := (\<lambda>x. if Suc a \<le> x \<and> x < Suc a + length objs then None else heap ?s1 x)\<rparr>)" .
  moreover have "(\<lambda>x. if Suc a \<le> x \<and> x < Suc a + length objs then None else heap ?s1 x) =
      (\<lambda>x. if a \<le> x \<and> x < a + length (obj # objs) then None else heap s x)"
    by (rule ext) auto
  ultimately show ?case using lt p del
    by (subst delete_loop.simps) simp
qed

lemma cout_entries_state:
  "cout (entries_state es i s) = cout s @ concat (map entry_prompts es)"
proof (induction es arbitrary: i s)
  case (Cons e es)
  then show ?case by (cases e) simp_all
qed simp

lemma lines_objects_of: "\<exists>lines. map person_line (objects_of es dc pc) = map Some lines"
proof (induction es dc pc rule: objects_of.induct)
  case (1 dc pc)
  then show ?case by simp
next
  case (2 nm a sp es dc pc)
  then obtain lines where tail: "map person_line (objects_of es (dc + 1) pc) = map Some lines"
    by blast
  obtain line where "person_line (DoctorObj \<lparr>name = nm, age = Some a, doctor_specialist = Some sp,
      doctor_id = dc + 1\<rparr>) = Some line"
    by (simp add: person_line_def Doctor_line_def)
  with tail have "map person_line (objects_of (DoctorEntry nm a sp # es) dc pc) =
      map Some (line # lines)"
    by simp
  then show ?case by blast
next
  case (3 c nm a ad es dc pc)
  then obtain lines where tail: "map person_line (objects_of es dc (pc + 1)) = map Some lines"
    by blast
  obtain line where "person_line (PatientObj \<lparr>name = nm, age = Some a, admission_date = ad,
      patient_id = pc + 1\<rparr>) = Some line"
    by (simp add: person_line_def Patient_line_def)
  with tail have "map person_line (objects_of (PatientEntry c nm a ad # es) dc pc) =
      map Some (line # lines)"
    by simp
  then show ?case by blast
qed

lemma heap_entries_state_above:
  "next_addr s + length es \<le> x \<Longrightarrow> heap (entries_state es i s) x = heap s x"
proof (induction es arbitrary: i s)
  case (Cons e es)
  then show ?case by (cases e) simp_all
qed simp

lemma doctor_ids_objects_of:
  "sint dc + int (length es) < 2 ^ 31 \<Longrightarrow>
   map sint (doctor_ids (objects_of es dc pc)) =
     [sint dc + 1 .. sint dc + int (length (doctor_ids (objects_of es dc pc)))]"
proof (induction es dc pc rule: objects_of.induct)
  case (1 dc pc)
  then show ?case by simp
next
  case (2 nm a sp es dc pc)
  let ?m = "length (doctor_ids (objects_of es (dc + 1) pc))"
  from 2 have step: "sint (dc + 1) = sint dc + 1" by (intro sint_incr) simp
  with 2 have "map sint (doctor_ids (objects_of es (dc + 1) pc)) =
      [sint dc + 1 + 1 .. sint dc + 1 + int ?m]"
    by simp
  then have "map sint (doctor_ids (objects_of (DoctorEntry nm a sp # es) dc pc)) =
      (sint dc + 1) # [sint dc + 1 + 1 .. sint dc + 1 + int ?m]"
    using step by simp
  also have "\<dots> = [sint dc + 1 .. sint dc + 1 + int ?m]"
    by (simp add: upto_rec1 [of "sint dc + 1"])
  finally show ?case by (simp add: add.assoc)
next
  case (3 c nm a ad es dc pc)
  then show ?case by simp
qed

lemma patient_ids_objects_of:
  "sint pc + int (length es) < 2 ^ 31 \<Longrightarrow>
   map sint (patient_ids (objects_of es dc pc)) =
     [sint pc + 1 .. sint pc + int (length (patient_ids (objects_of es dc pc)))]"
proof (induction es dc pc rule: objects_of.induct)
  case (1 dc pc)
  then show ?case by simp
next
  case (2 nm a sp es dc pc)
  then show ?case by simp
next
  case (3 c nm a ad es dc pc)
  let ?m = "length (patient_ids (objects_of es dc (pc + 1)))"
  from 3 have step: "sint (pc + 1) = sint pc + 1" by (intro sint_incr) simp
  with 3 have "map sint (patient_ids (objects_of es dc (pc + 1))) =
      [sint pc + 1 + 1 .. sint pc + 1 + int ?m]"
    by simp
  then have "map sint (patient_ids (objects_of (PatientEntry c nm a ad # es) dc pc)) =
      (sint pc + 1) # [sint pc + 1 + 1 .. sint pc + 1 + int ?m]"
    using step by simp
  also have "\<dots> = [sint pc + 1 .. sint pc + 1 + int ?m]"
    by (simp add: upto_rec1 [of "sint pc + 1"])
  finally show ?case by (simp add: add.assoc)
qed

text \<open>
  Claim C1.  Whatever the interleaving of Doctor and Patient entries, the records that the
  entry loop leaves in \<^verbatim>\<open>people[0]\<close>, ..., \<^verbatim>\<open>people[n-1]\<close> carry the sequence numbers
  1, 2, 3, ... among the Doctors, in creation order, and 1, 2, 3, ... among the Patients:
  each class counts with its own static counter.  The count \<open>n\<close> is an \<^verbatim>\<open>int\<close>, so no
  counter is incremented beyond \<^verbatim>\<open>INT_MAX\<close>.
\<close>

theorem sequence_numbers:
  assumes valid: "list_all valid_entry es" and len: "length es = nat (sint n)"
  shows "\<exists>s objs.
    entry_loop 0 n (hospital_init (concat (map encode_entry es) @ rest)) = Some s \<and>
    objs = objects_of es 0 0 \<and> length objs = length es \<and>
    (\<forall>k<length objs. \<exists>p. people s (of_nat k) = Some p \<and> heap s p = Some (objs ! k)) \<and>
    map sint (doctor_ids objs) = [1 .. int (length (doctor_ids objs))] \<and>
    map sint (patient_ids objs) = [1 .. int (length (patient_ids objs))]"
proof -
  define s0 where "s0 = hospital_init []"
  define s where "s = (entries_state es 0 s0)\<lparr>cin := rest\<rparr>"
  have len0: "length es = nat (sint n - sint (0 :: int32))" using len by simp
  have start: "hospital_init (concat (map encode_entry es) @ rest) =
      s0\<lparr>cin := concat (map encode_entry es) @ rest\<rparr>"
    by (simp add: s0_def hospital_init_def)
  have run: "entry_loop 0 n (hospital_init (concat (map encode_entry es) @ rest)) = Some s"
    unfolding s_def start by (rule entry_loop_entries [OF valid len0])
  have "slots (entries_state es 0 s0) 0 (next_addr s0) (objects_of es (doctor_count s0) (patient_count s0))"
    by (rule slots_entries_state [OF len0])
  then have "slots s 0 0 (objects_of es 0 0)"
    by (simp add: slots_def s_def s0_def hospital_init_def)
  then have where_: "\<forall>k<length (objects_of es 0 0).
      \<exists>p. people s (of_nat k) = Some p \<and> heap s p = Some (objects_of es 0 0 ! k)"
    by (simp add: slots_def)
  have "sint n < 2 ^ 31" using sint_lt [of n] by simp
  with len have bound: "sint (0 :: int32) + int (length es) < 2 ^ 31" by simp
  have doctors: "map sint (doctor_ids (objects_of es 0 0)) =
      [1 .. int (length (doctor_ids (objects_of es 0 0)))]"
    using doctor_ids_objects_of [OF bound, of 0] by simp
  have patients: "map sint (patient_ids (objects_of es 0 0)) =
      [1 .. int (length (patient_ids (objects_of es 0 0)))]"
    using patient_ids_objects_of [OF bound, of 0] by simp
  from run where_ doctors patients show ?thesis
    by (simp add: length_objects_of)
qed

theorem sequence_numbers_witness:
  "list_all valid_entry
     [DoctorEntry ''Asha'' 34 7, PatientEntry 2 ''Bo'' 5 ''2024-01-01'', DoctorEntry ''Cy'' 50 9] \<and>
   length [DoctorEntry ''Asha'' 34 7, PatientEntry 2 ''Bo'' 5 ''2024-01-01'', DoctorEntry ''Cy'' 50 9] =
     nat (sint (3 :: int32)) \<and>
   (\<exists>s objs.
      entry_loop 0 3 (hospital_init (concat (map encode_entry
        [DoctorEntry ''Asha'' 34 7, PatientEntry 2 ''Bo'' 5 ''2024-01-01'', DoctorEntry ''Cy'' 50 9]) @
        [IntItem 77])) = Some s \<and>
      map sint (doctor_ids objs) = [1, 2] \<and> map sint (patient_ids objs) = [1])"
proof -
  let ?es = "[DoctorEntry ''Asha'' 34 7, PatientEntry 2 ''Bo'' 5 ''2024-01-01'', DoctorEntry ''Cy'' 50 9]"
  have valid: "list_all valid_entry ?es" by simp
  have len: "length ?es = nat (sint (3 :: int32))" by simp
  from sequence_numbers [OF valid len, of "[IntItem 77]"]
  obtain s objs where run: "entry_loop 0 3 (hospital_init (concat (map encode_entry ?es) @ [IntItem 77])) = Some s"
    and objs: "objs = objects_of ?es 0 0"
    and doctors: "map sint (doctor_ids objs) = [1 .. int (length (doctor_ids objs))]"
    and patients: "map sint (patient_ids objs) = [1 .. int (length (patient_ids objs))]"
    by blast
  from objs have "length (doctor_ids objs) = 2" and "length (patient_ids objs) = 1"
    by simp_all
  with doctors patients
  have "map sint (doctor_ids objs) = [1, 2]" and "map sint (patient_ids objs) = [1]"
    by (simp_all add: upto_rec1)
  with valid len run show ?thesis by (intro conjI exI [of _ s] exI [of _ objs]) simp_all
qed

text \<open>
  Claim C6.  The first Doctor of a run, populated with the name Asha, the age 34 and the
  specialist id 7, is displayed as the line
  \<^verbatim>\<open>Doctor -> Name: Asha, Age: 34, Specialist ID: 7, Doctor ID: 1\<close>, which contains Asha,
  34 and 7 and ends with the sequence number 1.
\<close>

theorem first_doctor_Asha:
  "(case new_Doctor (hospital_init [WordItem ''Asha'', IntItem 34, IntItem 7]) of
      (p, s1) \<Rightarrow>
        \<exists>s2. getdata p s1 = Some s2 \<and>
          heap s2 p = Some (DoctorObj \<lparr>name = ''Asha'', age = Some 34, doctor_specialist = Some 7,
                                      doctor_id = 1\<rparr>) \<and>
          putdata p s2 =
            Some (put ''Doctor -> Name: Asha, Age: 34, Specialist ID: 7, Doctor ID: 1\<newline>'' s2)) \<and>
   sublist ''Asha'' ''Doctor -> Name: Asha, Age: 34, Specialist ID: 7, Doctor ID: 1\<newline>'' \<and>
   sublist ''34'' ''Doctor -> Name: Asha, Age: 34, Specialist ID: 7, Doctor ID: 1\<newline>'' \<and>
   sublist ''7'' ''Doctor -> Name: Asha, Age: 34, Specialist ID: 7, Doctor ID: 1\<newline>'' \<and>
   suffix ''Doctor ID: 1\<newline>'' ''Doctor -> Name: Asha, Age: 34, Specialist ID: 7, Doctor ID: 1\<newline>''"
proof (intro conjI)
  show "case new_Doctor (hospital_init [WordItem ''Asha'', IntItem 34, IntItem 7]) of
      (p, s1) \<Rightarrow>
        \<exists>s2. getdata p s1 = Some s2 \<and>
          heap s2 p = Some (DoctorObj \<lparr>name = ''Asha'', age = Some 34, doctor_specialist = Some 7,
                                      doctor_id = 1\<rparr>) \<and>
          putdata p s2 =
            Some (put ''Doctor -> Name: Asha, Age: 34, Specialist ID: 7, Doctor ID: 1\<newline>'' s2)"
    by (simp add: new_Doctor_def Doctor_ctor_def new_obj_def hospital_init_def getdata_def
        Doctor_getdata_def get_word_def get_int_def put_def putdata_def Doctor_putdata_def
        Doctor_line_def show_int_1 show_int_7 show_int_34)
qed (simp_all add: sublist_Cons_right suffix_def)

text \<open>
  Claim C9.  In the record-entry loop a Doctor is constructed exactly when the choice is 1;
  every other choice constructs a Patient, which the same pass populates: the pass writes
  the prompts only, there is no invalid-choice branch.
\<close>

theorem doctor_iff_choice_one:
  "(case new_person choice s of
      (p, s') \<Rightarrow>
        (\<exists>d. heap s' p = Some (DoctorObj d)) = (choice = 1) \<and>
        (\<exists>q. heap s' p = Some (PatientObj q)) = (choice \<noteq> 1)) \<and>
   (choice \<noteq> 1 \<longrightarrow>
      entry_body i (s\<lparr>cin := IntItem choice # WordItem nm # IntItem a # WordItem ad # rest\<rparr>) =
        Some (s\<lparr>cin := rest,
                cout := cout s @ ''\<newline>Enter 1 for Doctor, 2 for Patient: '' @
                  ''Enter Patient Name: Enter Age: Enter Admission Date: '',
                heap := (heap s)(next_addr s \<mapsto>
                  PatientObj \<lparr>name = nm, age = Some a, admission_date = ad,
                              patient_id = patient_count s + 1\<rparr>),
                next_addr := Suc (next_addr s),
                patient_count := patient_count s + 1,
                people := (people s)(i \<mapsto> next_addr s)\<rparr>)) \<and>
   entry_body i (s\<lparr>cin := IntItem 1 # WordItem nm # IntItem a # IntItem sp # rest\<rparr>) =
     Some (s\<lparr>cin := rest,
             cout := cout s @ ''\<newline>Enter 1 for Doctor, 2 for Patient: '' @
               ''Enter Doctor Name: Enter Age: Enter Specialist ID: '',
             heap := (heap s)(next_addr s \<mapsto>
               DoctorObj \<lparr>name = nm, age = Some a, doctor_specialist = Some sp,
                          doctor_id = doctor_count s + 1\<rparr>),
             next_addr := Suc (next_addr s),
             doctor_count := doctor_count s + 1,
             people := (people s)(i \<mapsto> next_addr s)\<rparr>)"
proof (intro conjI impI)
  show "case new_person choice s of
      (p, s') \<Rightarrow>
        (\<exists>d. heap s' p = Some (DoctorObj d)) = (choice = 1) \<and>
        (\<exists>q. heap s' p = Some (PatientObj q)) = (choice \<noteq> 1)"
    by (simp add: new_person_def new_Doctor_def new_Patient_def Doctor_ctor_def Patient_ctor_def
        new_obj_def)
next
  assume "choice \<noteq> 1"
  then have "valid_entry (PatientEntry choice nm a ad)" by simp
  from entry_body_entry [OF this, where i = i and s = s and rest = rest]
  show "entry_body i (s\<lparr>cin := IntItem choice # WordItem nm # IntItem a # WordItem ad # rest\<rparr>) =
      Some (s\<lparr>cin := rest,
              cout := cout s @ ''\<newline>Enter 1 for Doctor, 2 for Patient: '' @
                ''Enter Patient Name: Enter Age: Enter Admission Date: '',
              heap := (heap s)(next_addr s \<mapsto>
                PatientObj \<lparr>name = nm, age = Some a, admission_date = ad,
                            patient_id = patient_count s + 1\<rparr>),
              next_addr := Suc (next_addr s),
              patient_count := patient_count s + 1,
              people := (people s)(i \<mapsto> next_addr s)\<rparr>)"
    by simp
next
  have "valid_entry (DoctorEntry nm a sp)" by simp
  from entry_body_entry [OF this, where i = i and s = s and rest = rest]
  show "entry_body i (s\<lparr>cin := IntItem 1 # WordItem nm # IntItem a # IntItem sp # rest\<rparr>) =
      Some (s\<lparr>cin := rest,
              cout := cout s @ ''\<newline>Enter 1 for Doctor, 2 for Patient: '' @
                ''Enter Doctor Name: Enter Age: Enter Specialist ID: '',
              heap := (heap s)(next_addr s \<mapsto>
                DoctorObj \<lparr>name = nm, age = Some a, doctor_specialist = Some sp,
                           doctor_id = doctor_count s + 1\<rparr>),
              next_addr := Suc (next_addr s),
              doctor_count := doctor_count s + 1,
              people := (people s)(i \<mapsto> next_addr s)\<rparr>)"
    by simp
qed

theorem doctor_iff_choice_one_witness:
  "(99 :: int32) \<noteq> 1 \<and>
   (case new_person 99 (hospital_init []) of (p, s') \<Rightarrow> \<exists>q. heap s' p = Some (PatientObj q)) \<and>
   (case new_person 0 (hospital_init []) of (p, s') \<Rightarrow> \<exists>q. heap s' p = Some (PatientObj q)) \<and>
   (case new_person 3 (hospital_init []) of (p, s') \<Rightarrow> \<exists>q. heap s' p = Some (PatientObj q)) \<and>
   (case new_person 1 (hospital_init []) of (p, s') \<Rightarrow> \<exists>d. heap s' p = Some (DoctorObj d)) \<and>
   (\<exists>s'. entry_body 0 (hospital_init
        [IntItem 99, WordItem ''Bo'', IntItem 5, WordItem ''2024-01-01'']) = Some s' \<and>
      heap s' 0 = Some (PatientObj \<lparr>name = ''Bo'', age = Some 5, admission_date = ''2024-01-01'',
                                    patient_id = 1\<rparr>) \<and>
      people s' 0 = Some 0 \<and> doctor_count s' = 0 \<and> patient_count s' = 1 \<and>
      cout s' = ''\<newline>Enter 1 for Doctor, 2 for Patient: '' @
        ''Enter Patient Name: Enter Age: Enter Admission Date: '')"
  using doctor_iff_choice_one [of 99 "hospital_init []" 0 "''Bo''" 5 "''2024-01-01''" "[]" 7]
    doctor_iff_choice_one [of 0 "hospital_init []" 0 "''Bo''" 5 "''2024-01-01''" "[]" 7]
    doctor_iff_choice_one [of 3 "hospital_init []" 0 "''Bo''" 5 "''2024-01-01''" "[]" 7]
    doctor_iff_choice_one [of 1 "hospital_init []" 0 "''Bo''" 5 "''2024-01-01''" "[]" 7]
  by (simp add: hospital_init_def split: prod.splits)

section \<open>Properties of the transaction program\<close>

lemma displayInfo_text:
  "heap s p = Some obj \<Longrightarrow> displayInfo p s = Some (put (transaction_text obj) s)"
  by (cases obj)
    (simp_all add: displayInfo_def transaction_text_def Income_displayInfo_def Expense_displayInfo_def)

lemma display_all_texts:
  "map (heap s) ps = map Some objs \<Longrightarrow>
   display_all ps s = Some (put (concat (map transaction_text objs)) s)"
proof (induction ps arbitrary: s objs)
  case Nil
  then show ?case by (simp add: put_Nil)
next
  case (Cons p ps)
  then obtain obj rest where objs: "objs = obj # rest" and obj: "heap s p = Some obj"
    and rest: "map (heap s) ps = map Some rest"
    by (cases objs) auto
  from rest have "map (heap (put (transaction_text obj) s)) ps = map Some rest"
    by (simp add: heap_put)
  from Cons.IH [OF this] displayInfo_text [OF obj] objs show ?case
    by (simp add: put_put)
qed

lemma displayInfo_frame: "displayInfo p s = Some s' \<Longrightarrow> \<exists>obj. heap s p = Some obj \<and> s' = put (transaction_text obj) s"
  by (auto simp: displayInfo_def transaction_text_def Income_displayInfo_def Expense_displayInfo_def
      split: option.splits transaction_obj.splits)

lemma display_all_frame: "display_all ps s = Some s' \<Longrightarrow> \<exists>text. s' = put text s"
proof (induction ps arbitrary: s)
  case Nil
  then show ?case by (auto simp: put_Nil intro: exI [of _ "[]"])
next
  case (Cons p ps)
  then obtain s1 where one: "displayInfo p s = Some s1" and more: "display_all ps s1 = Some s'"
    by (auto simp: bind_eq_Some_conv)
  from displayInfo_frame [OF one] obtain t1 where "s1 = put t1 s" by blast
  moreover from Cons.IH [OF more] obtain t2 where "s' = put t2 s1" by blast
  ultimately show ?case by (auto simp: put_put)
qed

lemma menu_body_display_frame:
  assumes "menu_body s = Some (3, s')"
  shows "\<exists>text. s' = s\<lparr>cin := tl (cin s), cout := cout s @ text\<rparr>"
proof -
  from assms obtain s1 where read: "get_int (put menu_text s) = Some (3, s1)"
    and shown: "display_all (transactions s1)
      (put ''\<newline>===== Transaction Records =====\<newline>'' s1) = Some s'"
    by (auto simp: menu_body_def bind_eq_Some_conv)
  from get_int_Some [OF read] obtain rest where "cin s = IntItem 3 # rest"
    and s1: "s1 = (put menu_text s)\<lparr>cin := rest\<rparr>"
    by (auto simp: put_def)
  moreover from display_all_frame [OF shown] obtain out where
    "s' = put out (put ''\<newline>===== Transaction Records =====\<newline>'' s1)"
    by blast
  ultimately show ?thesis by (auto simp: put_def)
qed

lemma holds_map: "holds s objs \<Longrightarrow> map (heap s) (transactions s) = map Some objs"
  by (auto simp: holds_def intro: nth_equalityI)

lemma menu_body_event:
  assumes inv: "holds s objs" and valid: "valid_event e"
  shows "\<exists>s'. menu_body (s\<lparr>cin := encode_event e @ rest\<rparr>) = Some (choice_of e, s') \<and>
    holds s' (objs @ record_of e) \<and> cin s' = rest \<and> cout s' = cout s @ event_output objs e"
proof (cases e)
  case (NewIncome i d src a)
  with inv show ?thesis
    by (auto simp: menu_body_def get_int_def get_word_def get_line_def get_double_def put_def
        new_obj_def recordTransaction_def Income_recordTransaction_def IncomeTransaction_ctor_def
        holds_def nth_append)
next
  case (NewExpense i d cat a)
  with inv show ?thesis
    by (auto simp: menu_body_def get_int_def get_word_def get_line_def get_double_def put_def
        new_obj_def recordTransaction_def Expense_recordTransaction_def ExpenseTransaction_ctor_def
        holds_def nth_append)
next
  case DisplayAll
  let ?s1 = "put ''\<newline>===== Transaction Records =====\<newline>'' (put menu_text s\<lparr>cin := rest\<rparr>)"
  have "holds ?s1 objs" using inv by (simp add: holds_def put_def)
  from display_all_texts [OF holds_map [OF this]]
  have "display_all (transactions ?s1) ?s1 = Some (put (concat (map transaction_text objs)) ?s1)" .
  with DisplayAll inv show ?thesis
    by (simp add: menu_body_def get_int_def put_def holds_def)
next
  case (Invalid c)
  with inv valid show ?thesis
    by (simp add: menu_body_def get_int_def put_def holds_def)
qed

lemma choice_of_valid: "valid_event e \<Longrightarrow> choice_of e \<noteq> 4"
  by (cases e) simp_all

lemma records_Cons: "records (e # es) = record_of e @ records es"
  by (simp add: records_def)

lemma menu_steps_events:
  "holds s objs \<Longrightarrow> list_all valid_event es \<Longrightarrow>
   \<exists>s'. menu_steps (length es) (s\<lparr>cin := concat (map encode_event es) @ rest\<rparr>) = Some s' \<and>
     holds s' (objs @ records es) \<and> cin s' = rest \<and>
     cout s' = cout s @ session_output objs es"
proof (induction es arbitrary: s objs)
  case Nil
  then show ?case by (simp add: records_def holds_def)
next
  case (Cons e es)
  then have valid: "valid_event e" and valids: "list_all valid_event es" by simp_all
  from menu_body_event [OF Cons.prems(1) valid, where rest = "concat (map encode_event es) @ rest"]
  obtain s1 where body: "menu_body (s\<lparr>cin := encode_event e @ concat (map encode_event es) @ rest\<rparr>) =
      Some (choice_of e, s1)"
    and inv1: "holds s1 (objs @ record_of e)"
    and cin1: "cin s1 = concat (map encode_event es) @ rest"
    and cout1: "cout s1 = cout s @ event_output objs e"
    by blast
  from Cons.IH [OF inv1 valids]
  obtain s' where steps: "menu_steps (length es) (s1\<lparr>cin := concat (map encode_event es) @ rest\<rparr>) = Some s'"
    and inv': "holds s' ((objs @ record_of e) @ records es)" and cin': "cin s' = rest"
    and cout': "cout s' = cout s1 @ session_output (objs @ record_of e) es"
    by blast
  have same: "s1\<lparr>cin := concat (map encode_event es) @ rest\<rparr> = s1"
    using cin1 by simp
  from body steps same choice_of_valid [OF valid]
  have "menu_steps (length (e # es)) (s\<lparr>cin := concat (map encode_event (e # es)) @ rest\<rparr>) = Some s'"
    by simp
  with inv' cin' cout' cout1 show ?case
    by (intro exI [of _ s']) (simp add: records_Cons)
qed

lemma holds_init: "holds (ledger_init input) []"
  by (simp add: holds_def ledger_init_def)

lemma ledger_init_cin: "(ledger_init [])\<lparr>cin := input\<rparr> = ledger_init input"
  by (simp add: ledger_init_def)

lemma menu_loop_steps: "menu_steps k s = Some s' \<Longrightarrow> menu_loop s = menu_loop s'"
proof (induction k arbitrary: s)
  case 0
  then show ?case by simp
next
  case (Suc k)
  then obtain c s1 where body: "menu_body s = Some (c, s1)" and c: "c \<noteq> 4"
    and steps: "menu_steps k s1 = Some s'"
    by (auto simp: bind_eq_Some_conv split: if_splits)
  from Suc.IH [OF steps] body c show ?case
    by (subst menu_loop.simps) simp
qed




lemma delete_all_heap:
  "distinct ps \<Longrightarrow> \<forall>p\<in>set ps. heap s p \<noteq> None \<Longrightarrow>
   delete_all ps s = Some (s\<lparr>heap := (\<lambda>x. if x \<in> set ps then None else heap s x)\<rparr>)"
proof (induction ps arbitrary: s)
  case Nil
  then show ?case by simp
next
  case (Cons p ps)
  let ?s1 = "s\<lparr>heap := (heap s)(p := None)\<rparr>"
  from Cons.prems have del: "delete_obj p s = Some ?s1"
    by (auto simp: delete_obj_def)
  from Cons.prems have "distinct ps" and "\<forall>q\<in>set ps. heap ?s1 q \<noteq> None" by auto
  from Cons.IH [OF this]
  have "delete_all ps ?s1 = Some (?s1\<lparr>heap := (\<lambda>x. if x \<in> set ps then None else heap ?s1 x)\<rparr>)" .
  moreover have "(\<lambda>x. if x \<in> set ps then None else heap ?s1 x) =
      (\<lambda>x. if x \<in> set (p # ps) then None else heap s x)"
    by (rule ext) simp
  ultimately show ?case using del by simp
qed

lemma delete_all_holds:
  assumes "holds s objs"
  shows "delete_all (transactions s) s = Some (s\<lparr>heap := Map.empty\<rparr>)"
proof -
  from assms have reg: "transactions s = [0..<length objs]"
    and heap: "heap s = (\<lambda>p. if p < length objs then Some (objs ! p) else None)"
    by (simp_all add: holds_def)
  have "distinct (transactions s)" using reg by simp
  moreover have "\<forall>p\<in>set (transactions s). heap s p \<noteq> None" using reg heap by simp
  ultimately have "delete_all (transactions s) s =
      Some (s\<lparr>heap := (\<lambda>x. if x \<in> set (transactions s) then None else heap s x)\<rparr>)"
    by (rule delete_all_heap)
  moreover have "(\<lambda>x. if x \<in> set (transactions s) then None else heap s x) = Map.empty"
    using reg heap by (intro ext) simp
  ultimately show ?thesis by simp
qed

lemma menu_body_exit:
  "menu_body (s\<lparr>cin := IntItem 4 # rest\<rparr>) =
     Some (4, s\<lparr>cin := rest, cout := cout s @ menu_text @ ''Exiting...\<newline>''\<rparr>)"
  by (simp add: menu_body_def get_int_def put_def)

lemma menu_loop_Some_steps:
  "menu_loop s = Some s' \<Longrightarrow> \<exists>k s1. menu_steps k s = Some s1 \<and> menu_body s1 = Some (4, s')"
proof (induction s rule: menu_loop.induct)
  case (1 s)
  from "1.prems" obtain c s1 where body: "menu_body s = Some (c, s1)"
    and rest: "(if c \<noteq> 4 then menu_loop s1 else Some s1) = Some s'"
    by (subst (asm) menu_loop.simps) (auto simp: bind_eq_Some_conv)
  show ?case
  proof (cases "c = 4")
    case True
    with body rest have "menu_steps 0 s = Some s \<and> menu_body s = Some (4, s')" by simp
    then show ?thesis by blast
  next
    case False
    with rest have "menu_loop s1 = Some s'" by simp
    from "1.IH" [OF body refl False this]
    obtain k s2 where "menu_steps k s1 = Some s2" and last: "menu_body s2 = Some (4, s')" by blast
    with body False have "menu_steps (Suc k) s = Some s2" by simp
    with last show ?thesis by blast
  qed
qed

text \<open>
  Claim C5, as amended.  An income transaction populated with the identifier 1, the date
  2024-01-01, the source Salary and the amount 1000.0 is displayed under the label
  \<^verbatim>\<open>[Income Transaction]\<close> with the identifier, the date and the source as supplied,
  and the amount in the default notation of the stream, which is \<^verbatim>\<open>1000\<close>.
\<close>

theorem income_display_example:
  "(case new_obj (IncomeObj IncomeTransaction_ctor)
          (ledger_init [IntItem 1, WordItem ''2024-01-01'', LineItem ''Salary'', DoubleItem (Value 1000.0)]) of
      (p, s1) \<Rightarrow>
        \<exists>s2. recordTransaction p s1 = Some s2 \<and>
          heap s2 p = Some (IncomeObj \<lparr>transaction_ID = 1, date = ''2024-01-01'',
                                      source = ''Salary'', amount = Value 1000.0\<rparr>) \<and>
          displayInfo p s2 =
            Some (put (''\<newline>[Income Transaction]\<newline>'' @
                       ''Transaction ID: 1\<newline>'' @
                       ''Date: 2024-01-01\<newline>'' @
                       ''Source: Salary\<newline>'' @
                       ''Amount Received: 1000\<newline>'') s2))"
  by (simp add: new_obj_def ledger_init_def recordTransaction_def Income_recordTransaction_def
      IncomeTransaction_ctor_def get_int_def get_word_def get_line_def get_double_def put_def
      displayInfo_def Income_displayInfo_def Income_text_def show_int_1 show_value_1000)

text \<open>
  As worded, the claim C5 asks for the amount as supplied.  For the same record the text
  \<^verbatim>\<open>1000.0\<close> occurs nowhere in what the program writes.
\<close>

theorem income_amount_not_verbatim:
  "(case new_obj (IncomeObj IncomeTransaction_ctor)
          (ledger_init [IntItem 1, WordItem ''2024-01-01'', LineItem ''Salary'', DoubleItem (Value 1000.0)]) of
      (p, s1) \<Rightarrow>
        \<exists>s2 s3. recordTransaction p s1 = Some s2 \<and> displayInfo p s2 = Some s3 \<and>
          \<not> sublist ''1000.0'' (cout s3))"
  by (simp add: new_obj_def ledger_init_def recordTransaction_def Income_recordTransaction_def
      IncomeTransaction_ctor_def get_int_def get_word_def get_line_def get_double_def put_def
      displayInfo_def Income_displayInfo_def Income_text_def show_int_1 show_value_1000
      sublist_Cons_right)

text \<open>
  Claim C3.  A pass that reads a choice other than 1, 2, 3 and 4 writes the menu and the
  message \<^verbatim>\<open>Invalid choice! Try again.\<close>, consumes the choice and changes nothing else:
  the heap and the registry are as before.  The loop then runs the next pass on that
  state: when the choice 4 follows, the loop returns after writing the menu once more and
  \<^verbatim>\<open>Exiting...\<close>; when the input ends with the invalid choice, the loop does not
  return.
\<close>

theorem invalid_choice:
  assumes "c \<noteq> 1" "c \<noteq> 2" "c \<noteq> 3" "c \<noteq> 4"
  shows "menu_body (s\<lparr>cin := IntItem c # rest\<rparr>) =
      Some (c, s\<lparr>cin := rest, cout := cout s @ menu_text @ ''Invalid choice! Try again.\<newline>''\<rparr>) \<and>
    menu_loop (s\<lparr>cin := IntItem c # rest\<rparr>) =
      menu_loop (s\<lparr>cin := rest, cout := cout s @ menu_text @ ''Invalid choice! Try again.\<newline>''\<rparr>) \<and>
    menu_loop (s\<lparr>cin := IntItem c # rest\<rparr>) =
      menu_body (s\<lparr>cin := rest, cout := cout s @ menu_text @ ''Invalid choice! Try again.\<newline>''\<rparr>) \<bind>
        (\<lambda>(choice, s'). if choice \<noteq> 4 then menu_loop s' else Some s') \<and>
    menu_loop (s\<lparr>cin := IntItem c # IntItem 4 # rest\<rparr>) =
      Some (s\<lparr>cin := rest,
              cout := cout s @ menu_text @ ''Invalid choice! Try again.\<newline>'' @
                menu_text @ ''Exiting...\<newline>''\<rparr>) \<and>
    menu_loop (s\<lparr>cin := [IntItem c]\<rparr>) = None"
proof -
  let ?after = "\<lambda>rest. s\<lparr>cin := rest, cout := cout s @ menu_text @ ''Invalid choice! Try again.\<newline>''\<rparr>"
  have body: "menu_body (s\<lparr>cin := IntItem c # rest\<rparr>) = Some (c, ?after rest)" for rest
    using assms by (simp add: menu_body_def get_int_def put_def)
  have next_pass: "menu_loop (s\<lparr>cin := IntItem c # rest\<rparr>) = menu_loop (?after rest)" for rest
    using assms body [of rest] by (subst menu_loop.simps) simp
  have unrolled: "menu_loop (?after rest) =
      menu_body (?after rest) \<bind> (\<lambda>(choice, s'). if choice \<noteq> 4 then menu_loop s' else Some s')"
    by (subst menu_loop.simps) simp
  have "menu_body (?after (IntItem 4 # rest)) =
      Some (4, s\<lparr>cin := rest,
              cout := cout s @ menu_text @ ''Invalid choice! Try again.\<newline>'' @
                menu_text @ ''Exiting...\<newline>''\<rparr>)"
    by (simp add: menu_body_def get_int_def put_def)
  then have "menu_loop (?after (IntItem 4 # rest)) =
      Some (s\<lparr>cin := rest,
              cout := cout s @ menu_text @ ''Invalid choice! Try again.\<newline>'' @
                menu_text @ ''Exiting...\<newline>''\<rparr>)"
    by (subst menu_loop.simps) simp
  with next_pass [of "IntItem 4 # rest"]
  have exits: "menu_loop (s\<lparr>cin := IntItem c # IntItem 4 # rest\<rparr>) =
      Some (s\<lparr>cin := rest,
              cout := cout s @ menu_text @ ''Invalid choice! Try again.\<newline>'' @
                menu_text @ ''Exiting...\<newline>''\<rparr>)"
    by simp
  have "menu_body (?after []) = None" by (simp add: menu_body_def get_int_def put_def)
  then have "menu_loop (?after []) = None" by (subst menu_loop.simps) simp
  with next_pass [of "[]"] have ends: "menu_loop (s\<lparr>cin := [IntItem c]\<rparr>) = None" by simp
  from body [of rest] next_pass [of rest] unrolled exits ends show ?thesis by simp
qed

theorem invalid_choice_witness:
  "(99 :: int32) \<noteq> 1 \<and> (99 :: int32) \<noteq> 2 \<and> (99 :: int32) \<noteq> 3 \<and> (99 :: int32) \<noteq> 4 \<and>
   menu_body (ledger_init [IntItem 99, IntItem 4]) =
     Some (99, \<lparr>cin = [IntItem 4], cout = menu_text @ ''Invalid choice! Try again.\<newline>'',
                heap = Map.empty, next_addr = 0, transactions = []\<rparr>) \<and>
   menu_loop (ledger_init [IntItem 99, IntItem 4]) =
     Some \<lparr>cin = [], cout = menu_text @ ''Invalid choice! Try again.\<newline>'' @
             menu_text @ ''Exiting...\<newline>'',
           heap = Map.empty, next_addr = 0, transactions = []\<rparr> \<and>
   menu_loop (ledger_init [IntItem 99]) = None"
  using invalid_choice [where c = 99 and s = "ledger_init []" and rest = "[IntItem 4]"]
    invalid_choice [where c = 99 and s = "ledger_init []" and rest = "[]"]
  by (simp add: ledger_init_def)

lemma menu_loop_exit_events:
  assumes valid: "list_all valid_event es"
  shows "\<exists>s2. menu_loop (ledger_init (concat (map encode_event es) @ IntItem 4 # rest)) = Some s2 \<and>
    holds s2 (records es) \<and> cin s2 = rest \<and>
    cout s2 = session_output [] es @ menu_text @ ''Exiting...\<newline>''"
proof -
  from menu_steps_events [OF holds_init valid, where input1 = "[]" and rest = "IntItem 4 # rest"]
  obtain s1 where steps:
      "menu_steps (length es) (ledger_init (concat (map encode_event es) @ IntItem 4 # rest)) = Some s1"
    and inv: "holds s1 (records es)" and cin1: "cin s1 = IntItem 4 # rest"
    and cout1: "cout s1 = session_output [] es"
    by (auto simp: ledger_init_cin ledger_init_def)
  let ?s2 = "s1\<lparr>cin := rest, cout := cout s1 @ menu_text @ ''Exiting...\<newline>''\<rparr>"
  have "s1\<lparr>cin := IntItem 4 # rest\<rparr> = s1" using cin1 by simp
  with menu_body_exit [where s = s1 and rest = rest] have body: "menu_body s1 = Some (4, ?s2)" by simp
  then have "menu_loop s1 = Some ?s2" by (subst menu_loop.simps) simp
  with menu_loop_steps [OF steps]
  have "menu_loop (ledger_init (concat (map encode_event es) @ IntItem 4 # rest)) = Some ?s2"
    by simp
  moreover have "holds ?s2 (records es)" using inv by (simp add: holds_def)
  ultimately show ?thesis using cout1 by (intro exI [of _ ?s2]) simp
qed

lemma menu_loop_input_ends:
  assumes valid: "list_all valid_event es"
  shows "menu_loop (ledger_init (concat (map encode_event es))) = None"
proof -
  from menu_steps_events [OF holds_init valid, where input1 = "[]" and rest = "[]"]
  obtain s1 where steps: "menu_steps (length es) (ledger_init (concat (map encode_event es))) = Some s1"
    and cin1: "cin s1 = []"
    by (auto simp: ledger_init_cin)
  from cin1 have "menu_body s1 = None" by (simp add: menu_body_def get_int_def put_def)
  then have "menu_loop s1 = None" by (subst menu_loop.simps) simp
  with menu_loop_steps [OF steps] show ?thesis by simp
qed

text \<open>
  Claim C4.  The menu loop returns only from a pass that has read the choice 4, reached
  through passes that all read another choice; after a pass that read another choice the
  loop runs the next pass.  On a session that does not contain the choice 4 the loop does
  not return; when the choice 4 follows the session the loop returns without reading
  further, and \<^verbatim>\<open>main\<close> then deletes every record of the registry and returns 0.
\<close>

theorem menu_loop_ends_on_exit_only:
  "(menu_loop s = Some s' \<longrightarrow> (\<exists>k s1. menu_steps k s = Some s1 \<and> menu_body s1 = Some (4, s'))) \<and>
   (menu_body s = Some (c, s1) \<longrightarrow> menu_loop s = (if c \<noteq> 4 then menu_loop s1 else Some s1)) \<and>
   (list_all valid_event es \<longrightarrow>
      menu_loop (ledger_init (concat (map encode_event es))) = None \<and>
      (\<exists>s2. menu_loop (ledger_init (concat (map encode_event es) @ IntItem 4 # rest)) = Some s2 \<and>
         cin s2 = rest \<and>
         cout s2 = session_output [] es @ menu_text @ ''Exiting...\<newline>'' \<and>
         map (heap s2) (transactions s2) = map Some (records es) \<and>
         transactions_main (ledger_init (concat (map encode_event es) @ IntItem 4 # rest)) =
           Some (0, s2\<lparr>heap := Map.empty\<rparr>)))"
proof (intro conjI impI)
  assume "menu_loop s = Some s'"
  then show "\<exists>k s1. menu_steps k s = Some s1 \<and> menu_body s1 = Some (4, s')"
    by (rule menu_loop_Some_steps)
next
  assume "menu_body s = Some (c, s1)"
  then show "menu_loop s = (if c \<noteq> 4 then menu_loop s1 else Some s1)"
    by (subst menu_loop.simps) simp
next
  assume "list_all valid_event es"
  then show "menu_loop (ledger_init (concat (map encode_event es))) = None"
    by (rule menu_loop_input_ends)
next
  assume valid: "list_all valid_event es"
  from menu_loop_exit_events [OF valid, where rest = rest]
  obtain s2 where loop: "menu_loop (ledger_init (concat (map encode_event es) @ IntItem 4 # rest)) = Some s2"
    and inv: "holds s2 (records es)" and cin2: "cin s2 = rest"
    and cout2: "cout s2 = session_output [] es @ menu_text @ ''Exiting...\<newline>''"
    by blast
  from loop delete_all_holds [OF inv]
  have "transactions_main (ledger_init (concat (map encode_event es) @ IntItem 4 # rest)) =
      Some (0, s2\<lparr>heap := Map.empty\<rparr>)"
    by (simp add: transactions_main_def)
  with loop cin2 cout2 holds_map [OF inv]
  show "\<exists>s2. menu_loop (ledger_init (concat (map encode_event es) @ IntItem 4 # rest)) = Some s2 \<and>
      cin s2 = rest \<and>
      cout s2 = session_output [] es @ menu_text @ ''Exiting...\<newline>'' \<and>
      map (heap s2) (transactions s2) = map Some (records es) \<and>
      transactions_main (ledger_init (concat (map encode_event es) @ IntItem 4 # rest)) =
        Some (0, s2\<lparr>heap := Map.empty\<rparr>)"
    by blast
qed

theorem menu_loop_ends_on_exit_only_witness:
  "menu_body (ledger_init [IntItem 4]) =
     Some (4, (ledger_init [])\<lparr>cout := menu_text @ ''Exiting...\<newline>''\<rparr>) \<and>
   menu_loop (ledger_init [IntItem 4]) =
     Some ((ledger_init [])\<lparr>cout := menu_text @ ''Exiting...\<newline>''\<rparr>) \<and>
   (\<exists>k s1. menu_steps k (ledger_init [IntItem 4]) = Some s1 \<and>
      menu_body s1 = Some (4, (ledger_init [])\<lparr>cout := menu_text @ ''Exiting...\<newline>''\<rparr>)) \<and>
   list_all valid_event [NewIncome 1 ''2024-01-01'' ''Salary'' (Value 1000), Invalid 99] \<and>
   menu_loop (ledger_init
     [IntItem 1, IntItem 1, WordItem ''2024-01-01'', LineItem ''Salary'', DoubleItem (Value 1000),
      IntItem 99]) = None \<and>
   (\<exists>s2. menu_loop (ledger_init
        [IntItem 1, IntItem 1, WordItem ''2024-01-01'', LineItem ''Salary'', DoubleItem (Value 1000),
         IntItem 99, IntItem 4, IntItem 3]) = Some s2 \<and>
      cin s2 = [IntItem 3] \<and>
      map (heap s2) (transactions s2) =
        [Some (IncomeObj \<lparr>transaction_ID = 1, date = ''2024-01-01'', source = ''Salary'',
                           amount = Value 1000\<rparr>)] \<and>
      transactions_main (ledger_init
        [IntItem 1, IntItem 1, WordItem ''2024-01-01'', LineItem ''Salary'', DoubleItem (Value 1000),
         IntItem 99, IntItem 4, IntItem 3]) = Some (0, s2\<lparr>heap := Map.empty\<rparr>))"
proof -
  let ?x = "(ledger_init [])\<lparr>cout := menu_text @ ''Exiting...\<newline>''\<rparr>"
  let ?es = "[NewIncome 1 ''2024-01-01'' ''Salary'' (Value 1000), Invalid 99]"
  note exit_only = menu_loop_ends_on_exit_only
    [where s = "ledger_init [IntItem 4]" and s' = ?x and c = 4 and ?s1.0 = ?x and es = ?es
      and rest = "[IntItem 3]"]
  have body: "menu_body (ledger_init [IntItem 4]) = Some (4, ?x)"
    by (simp add: menu_body_def get_int_def put_def ledger_init_def)
  with exit_only have loop: "menu_loop (ledger_init [IntItem 4]) = Some ?x" by simp
  with exit_only have steps: "\<exists>k s1. menu_steps k (ledger_init [IntItem 4]) = Some s1 \<and>
      menu_body s1 = Some (4, ?x)"
    by blast
  have valid: "list_all valid_event ?es" by simp
  with exit_only have ends: "menu_loop (ledger_init (concat (map encode_event ?es))) = None"
    by blast
  from valid exit_only obtain s2 where
    "menu_loop (ledger_init (concat (map encode_event ?es) @ IntItem 4 # [IntItem 3])) = Some s2"
    "cin s2 = [IntItem 3]"
    "map (heap s2) (transactions s2) = map Some (records ?es)"
    "transactions_main (ledger_init (concat (map encode_event ?es) @ IntItem 4 # [IntItem 3])) =
      Some (0, s2\<lparr>heap := Map.empty\<rparr>)"
    by blast
  with body loop steps valid ends show ?thesis
    by (intro conjI exI [of _ s2]) (simp_all add: records_def)
qed

section \<open>Frame properties\<close>

lemma streams_only_trans: "streams_only s s1 \<Longrightarrow> streams_only s1 s2 \<Longrightarrow> streams_only s s2"
proof -
  assume a: "streams_only s s1" and b: "streams_only s1 s2"
  from a have "s1 = s\<lparr>cin := cin s1, cout := cout s1\<rparr>" by (simp add: streams_only_def)
  moreover from b have "s2 = s1\<lparr>cin := cin s2, cout := cout s2\<rparr>" by (simp add: streams_only_def)
  ultimately have "s2 = s\<lparr>cin := cin s1, cout := cout s1\<rparr>\<lparr>cin := cin s2, cout := cout s2\<rparr>" by simp
  then show ?thesis by (simp add: streams_only_def)
qed

lemma streams_only_put: "streams_only s (put out s)"
  by (simp add: streams_only_def put_def)

lemma streams_only_get_int: "get_int s = Some (v, s') \<Longrightarrow> streams_only s s'"
  by (auto simp: get_int_def streams_only_def split: list.splits cin_item.splits)

lemma streams_only_get_word: "get_word s = Some (v, s') \<Longrightarrow> streams_only s s'"
  by (auto simp: get_word_def streams_only_def split: list.splits cin_item.splits)

lemma streams_only_get_line: "get_line s = Some (v, s') \<Longrightarrow> streams_only s s'"
  by (auto simp: get_line_def streams_only_def split: list.splits cin_item.splits)

lemma streams_only_get_double: "get_double s = Some (v, s') \<Longrightarrow> streams_only s s'"
  by (auto simp: get_double_def streams_only_def split: list.splits cin_item.splits)

lemmas streams_only_get = streams_only_get_int streams_only_get_word streams_only_get_line
  streams_only_get_double

lemma streams_only_put_get:
  "streams_only (put out s) s' \<Longrightarrow> streams_only s s'"
  by (rule streams_only_trans [OF streams_only_put])

lemma Doctor_getdata_streams: "Doctor_getdata d s = Some (d', s') \<Longrightarrow> streams_only s s'"
  by (auto simp: Doctor_getdata_def bind_eq_Some_conv
      dest!: streams_only_get streams_only_put_get intro: streams_only_trans)

lemma Patient_getdata_streams: "Patient_getdata q s = Some (q', s') \<Longrightarrow> streams_only s s'"
  by (auto simp: Patient_getdata_def bind_eq_Some_conv
      dest!: streams_only_get streams_only_put_get intro: streams_only_trans)

lemma Income_recordTransaction_streams:
  "Income_recordTransaction t s = Some (t', s') \<Longrightarrow> streams_only s s'"
  by (auto simp: Income_recordTransaction_def bind_eq_Some_conv
      dest!: streams_only_get streams_only_put_get intro: streams_only_trans)

lemma Expense_recordTransaction_streams:
  "Expense_recordTransaction t s = Some (t', s') \<Longrightarrow> streams_only s s'"
  by (auto simp: Expense_recordTransaction_def bind_eq_Some_conv
      dest!: streams_only_get streams_only_put_get intro: streams_only_trans)

lemma streams_only_heap: "streams_only s s' \<Longrightarrow> heap s' = heap s"
proof -
  assume "streams_only s s'"
  then have "heap s' = heap (s\<lparr>cin := cin s', cout := cout s'\<rparr>)"
    unfolding streams_only_def by (rule arg_cong)
  then show ?thesis by simp
qed

lemma streams_only_next_addr: "streams_only s s' \<Longrightarrow> next_addr s' = next_addr s"
proof -
  assume "streams_only s s'"
  then have "next_addr s' = next_addr (s\<lparr>cin := cin s', cout := cout s'\<rparr>)"
    unfolding streams_only_def by (rule arg_cong)
  then show ?thesis by simp
qed

lemma streams_only_transactions: "streams_only s s' \<Longrightarrow> transactions s' = transactions s"
proof -
  assume "streams_only s s'"
  then have "transactions s' = transactions (s\<lparr>cin := cin s', cout := cout s'\<rparr>)"
    unfolding streams_only_def by (rule arg_cong)
  then show ?thesis by simp
qed

lemma getdata_heap:
  assumes "getdata p s = Some s'" and "a \<noteq> p"
  shows "heap s' a = heap s a"
proof (cases "heap s p")
  case None
  with assms show ?thesis by (simp add: getdata_def)
next
  case (Some obj)
  show ?thesis
  proof (cases obj)
    case (DoctorObj d)
    with Some assms obtain d' s1 where got: "Doctor_getdata d s = Some (d', s1)"
      and s': "s' = s1\<lparr>heap := (heap s1)(p \<mapsto> DoctorObj d')\<rparr>"
      by (auto simp: getdata_def bind_eq_Some_conv)
    from streams_only_heap [OF Doctor_getdata_streams [OF got]] s' assms(2)
    show ?thesis by simp
  next
    case (PatientObj q)
    with Some assms obtain q' s1 where got: "Patient_getdata q s = Some (q', s1)"
      and s': "s' = s1\<lparr>heap := (heap s1)(p \<mapsto> PatientObj q')\<rparr>"
      by (auto simp: getdata_def bind_eq_Some_conv)
    from streams_only_heap [OF Patient_getdata_streams [OF got]] s' assms(2)
    show ?thesis by simp
  qed
qed

lemma recordTransaction_heap:
  assumes "recordTransaction p s = Some s'"
  shows "(a \<noteq> p \<longrightarrow> heap s' a = heap s a) \<and> transactions s' = transactions s \<and>
    next_addr s' = next_addr s"
proof (cases "heap s p")
  case None
  with assms show ?thesis by (simp add: recordTransaction_def)
next
  case (Some obj)
  show ?thesis
  proof (cases obj)
    case (IncomeObj t)
    with Some assms obtain t' s1 where got: "Income_recordTransaction t s = Some (t', s1)"
      and s': "s' = s1\<lparr>heap := (heap s1)(p \<mapsto> IncomeObj t')\<rparr>"
      by (auto simp: recordTransaction_def bind_eq_Some_conv)
    note io = Income_recordTransaction_streams [OF got]
    from streams_only_heap [OF io] streams_only_transactions [OF io] streams_only_next_addr [OF io] s'
    show ?thesis by simp
  next
    case (ExpenseObj t)
    with Some assms obtain t' s1 where got: "Expense_recordTransaction t s = Some (t', s1)"
      and s': "s' = s1\<lparr>heap := (heap s1)(p \<mapsto> ExpenseObj t')\<rparr>"
      by (auto simp: recordTransaction_def bind_eq_Some_conv)
    note io = Expense_recordTransaction_streams [OF got]
    from streams_only_heap [OF io] streams_only_transactions [OF io] streams_only_next_addr [OF io] s'
    show ?thesis by simp
  qed
qed

lemma new_person_heap:
  "fst (new_person choice s) = next_addr s \<and>
   (a < next_addr s \<longrightarrow> heap (snd (new_person choice s)) a = heap s a)"
  by (simp add: new_person_def new_Doctor_def new_Patient_def Doctor_ctor_def Patient_ctor_def
      new_obj_def)

lemma entry_body_heap:
  assumes "entry_body i s = Some s'" and "a < next_addr s"
  shows "heap s' a = heap s a"
proof -
  from assms(1) obtain choice s1 where
    read: "get_int (put ''\<newline>Enter 1 for Doctor, 2 for Patient: '' s) = Some (choice, s1)"
    by (auto simp: entry_body_def bind_eq_Some_conv)
  note io = streams_only_put_get [OF streams_only_get_int [OF read]]
  have s1: "heap s1 = heap s" "next_addr s1 = next_addr s"
    using streams_only_heap [OF io] streams_only_next_addr [OF io] by simp_all
  obtain p s2 where new: "new_person choice s1 = (p, s2)" by (cases "new_person choice s1")
  with new_person_heap [of choice s1 a] assms(2) s1
  have p: "p = next_addr s" and heap2: "heap s2 a = heap s a" by simp_all
  from assms(1) read new have got: "getdata p (s2\<lparr>people := (people s2)(i \<mapsto> p)\<rparr>) = Some s'"
    by (simp add: entry_body_def)
  from assms(2) p have "a \<noteq> p" by simp
  from getdata_heap [OF got this] heap2 show ?thesis by simp
qed

lemma menu_body_heap:
  assumes "menu_body s = Some (c, s')" and "a < next_addr s"
  shows "heap s' a = heap s a \<and> prefix (transactions s) (transactions s')"
proof -
  from assms(1) obtain s1 where read: "get_int (put menu_text s) = Some (c, s1)"
    by (auto simp: menu_body_def bind_eq_Some_conv)
  note io = streams_only_put_get [OF streams_only_get_int [OF read]]
  have s1: "heap s1 = heap s" "next_addr s1 = next_addr s" "transactions s1 = transactions s"
    using streams_only_heap [OF io] streams_only_next_addr [OF io] streams_only_transactions [OF io]
    by simp_all
  from assms(2) s1 have fresh: "a \<noteq> next_addr s1" by simp
  consider "c = 1" | "c = 2" | "c = 3" | "c = 4" | "c \<noteq> 1" "c \<noteq> 2" "c \<noteq> 3" "c \<noteq> 4"
    by blast
  then show ?thesis
  proof cases
    case 1
    with assms(1) read obtain s3 where
      rec: "recordTransaction (next_addr s1) (snd (new_obj (IncomeObj IncomeTransaction_ctor) s1)) = Some s3"
      and s': "s' = s3\<lparr>transactions := transactions s3 @ [next_addr s1]\<rparr>"
      by (auto simp: menu_body_def bind_eq_Some_conv new_obj_def)
    from recordTransaction_heap [OF rec, of a] fresh s' s1 show ?thesis
      by (simp add: new_obj_def)
  next
    case 2
    with assms(1) read obtain s3 where
      rec: "recordTransaction (next_addr s1) (snd (new_obj (ExpenseObj ExpenseTransaction_ctor) s1)) = Some s3"
      and s': "s' = s3\<lparr>transactions := transactions s3 @ [next_addr s1]\<rparr>"
      by (auto simp: menu_body_def bind_eq_Some_conv new_obj_def)
    from recordTransaction_heap [OF rec, of a] fresh s' s1 show ?thesis
      by (simp add: new_obj_def)
  next
    case 3
    with assms(1) menu_body_display_frame [of s s'] show ?thesis by auto
  next
    case 4
    with assms(1) read s1 show ?thesis
      by (auto simp: menu_body_def bind_eq_Some_conv put_def)
  next
    case 5
    with assms(1) read s1 show ?thesis
      by (auto simp: menu_body_def bind_eq_Some_conv put_def)
  qed
qed

lemma putdata_eq:
  "putdata p s = (heap s p \<bind> person_line) \<bind> (\<lambda>line. Some (s\<lparr>cout := cout s @ line\<rparr>))"
  by (simp add: putdata_def person_line_def Doctor_putdata_def Patient_putdata_def put_def
      split: option.splits person_obj.splits)

lemma displayInfo_eq:
  "displayInfo p s = heap s p \<bind> (\<lambda>obj. Some (s\<lparr>cout := cout s @ transaction_text obj\<rparr>))"
  by (simp add: displayInfo_def transaction_text_def Income_displayInfo_def Expense_displayInfo_def
      put_def split: option.splits transaction_obj.splits)

lemma display_loop_frame: "display_loop i n s = Some s' \<Longrightarrow> \<exists>out. s' = s\<lparr>cout := cout s @ out\<rparr>"
proof (induction i n s rule: display_loop.induct)
  case (1 i n s)
  show ?case
  proof (cases "i <s n")
    case False
    with "1.prems" have "s' = s" by (simp add: display_loop.simps)
    then have "s' = s\<lparr>cout := cout s @ []\<rparr>" by simp
    then show ?thesis by blast
  next
    case True
    with "1.prems" obtain p s1 where p: "people s i = Some p" and one: "putdata p s = Some s1"
      and more: "display_loop (i + 1) n s1 = Some s'"
      by (subst (asm) display_loop.simps) (auto simp: bind_eq_Some_conv)
    from one obtain line where s1: "s1 = s\<lparr>cout := cout s @ line\<rparr>"
      by (auto simp: putdata_eq bind_eq_Some_conv)
    from "1.IH" [OF True p one more] obtain out where "s' = s1\<lparr>cout := cout s1 @ out\<rparr>"
      by blast
    with s1 have "s' = s\<lparr>cout := cout s @ (line @ out)\<rparr>" by simp
    then show ?thesis by blast
  qed
qed

text \<open>
  Claim C7.  \<^verbatim>\<open>putdata\<close> and \<^verbatim>\<open>displayInfo\<close> append to the output a text that
  depends on the fields of the record alone, and change nothing else: not the record, not
  another record, not the counters, not the array or the registry, not the input.  The
  same holds for the display loops of both programs.  A pass of either entry loop leaves
  the records that earlier passes created as they are: only the record that the pass
  itself creates is populated.
\<close>

theorem present_only_writes:
  "putdata p h = (heap h p \<bind> person_line) \<bind> (\<lambda>line. Some (h\<lparr>cout := cout h @ line\<rparr>)) \<and>
   displayInfo p l = heap l p \<bind> (\<lambda>obj. Some (l\<lparr>cout := cout l @ transaction_text obj\<rparr>)) \<and>
   (display_loop i n h = Some h' \<longrightarrow> (\<exists>out. h' = h\<lparr>cout := cout h @ out\<rparr>)) \<and>
   (display_all ps l = Some l' \<longrightarrow> (\<exists>out. l' = l\<lparr>cout := cout l @ out\<rparr>)) \<and>
   (entry_body i h = Some h' \<longrightarrow> a < next_addr h \<longrightarrow> heap h' a = heap h a) \<and>
   (menu_body l = Some (c, l') \<longrightarrow> a < next_addr l \<longrightarrow>
      heap l' a = heap l a \<and> prefix (transactions l) (transactions l'))"
proof (intro conjI impI)
  show "putdata p h = (heap h p \<bind> person_line) \<bind> (\<lambda>line. Some (h\<lparr>cout := cout h @ line\<rparr>))"
    by (rule putdata_eq)
  show "displayInfo p l = heap l p \<bind> (\<lambda>obj. Some (l\<lparr>cout := cout l @ transaction_text obj\<rparr>))"
    by (rule displayInfo_eq)
next
  assume "display_loop i n h = Some h'"
  then show "\<exists>out. h' = h\<lparr>cout := cout h @ out\<rparr>" by (rule display_loop_frame)
next
  assume "display_all ps l = Some l'"
  from display_all_frame [OF this] show "\<exists>out. l' = l\<lparr>cout := cout l @ out\<rparr>"
    by (simp add: put_def)
next
  assume "entry_body i h = Some h'" and "a < next_addr h"
  then show "heap h' a = heap h a" by (rule entry_body_heap)
next
  assume "menu_body l = Some (c, l')" and "a < next_addr l"
  then show "heap l' a = heap l a" and "prefix (transactions l) (transactions l')"
    using menu_body_heap by blast+
qed

theorem present_only_writes_witness:
  "putdata 0 ward_example =
     Some (ward_example\<lparr>cout := ''Doctor -> Name: Asha, Age: 34, Specialist ID: 7, Doctor ID: 1\<newline>''\<rparr>) \<and>
   displayInfo 0 ledger_example =
     Some (ledger_example\<lparr>cout := ''\<newline>[Income Transaction]\<newline>'' @
       ''Transaction ID: 1\<newline>'' @ ''Date: 2024-01-01\<newline>'' @ ''Source: Salary\<newline>'' @
       ''Amount Received: 1000\<newline>''\<rparr>) \<and>
   (\<exists>h'. display_loop 0 1 ward_example = Some h' \<and>
      (\<exists>out. h' = ward_example\<lparr>cout := cout ward_example @ out\<rparr>)) \<and>
   (\<exists>l'. display_all [0] ledger_example = Some l' \<and>
      (\<exists>out. l' = ledger_example\<lparr>cout := cout ledger_example @ out\<rparr>)) \<and>
   (\<exists>h'. entry_body 1 ward_example = Some h' \<and> 0 < next_addr ward_example \<and>
      heap h' 0 = heap ward_example 0 \<and> heap h' 1 \<noteq> None) \<and>
   (\<exists>l'. menu_body ledger_example = Some (3, l') \<and> 0 < next_addr ledger_example \<and>
      heap l' 0 = heap ledger_example 0 \<and> transactions l' = [0])"
proof (intro conjI)
  show "putdata 0 ward_example =
      Some (ward_example\<lparr>cout := ''Doctor -> Name: Asha, Age: 34, Specialist ID: 7, Doctor ID: 1\<newline>''\<rparr>)"
    using present_only_writes [where p = 0 and h = ward_example]
    by (simp add: ward_example_def person_line_def Doctor_line_def show_int_1 show_int_7 show_int_34)
  show "displayInfo 0 ledger_example =
      Some (ledger_example\<lparr>cout := ''\<newline>[Income Transaction]\<newline>'' @
        ''Transaction ID: 1\<newline>'' @ ''Date: 2024-01-01\<newline>'' @ ''Source: Salary\<newline>'' @
        ''Amount Received: 1000\<newline>''\<rparr>)"
    using present_only_writes [where p = 0 and l = ledger_example]
    by (simp add: ledger_example_def transaction_text_def Income_text_def show_int_1 show_value_1000)
next
  have people: "people ward_example 0 = Some 0" by (simp add: ward_example_def)
  obtain h1 where one: "putdata 0 ward_example = Some h1"
    by (simp add: putdata_eq ward_example_def person_line_def Doctor_line_def)
  have "\<not> (0 + 1 :: int32) <s 1" by (simp add: word_sless_alt)
  then have "display_loop (0 + 1) 1 h1 = Some h1" by (simp add: display_loop.simps)
  moreover have "(0 :: int32) <s 1" by (simp add: word_sless_alt)
  ultimately have run: "display_loop 0 1 ward_example = Some h1"
    using people one by (subst display_loop.simps) simp
  with present_only_writes [where h = ward_example and i = 0 and n = 1 and h' = h1]
  show "\<exists>h'. display_loop 0 1 ward_example = Some h' \<and>
      (\<exists>out. h' = ward_example\<lparr>cout := cout ward_example @ out\<rparr>)"
    by blast
next
  obtain l1 where run: "display_all [0] ledger_example = Some l1"
    by (simp add: displayInfo_eq ledger_example_def)
  with present_only_writes [where l = ledger_example and ps = "[0]" and l' = l1]
  show "\<exists>l'. display_all [0] ledger_example = Some l' \<and>
      (\<exists>out. l' = ledger_example\<lparr>cout := cout ledger_example @ out\<rparr>)"
    by blast
next
  let ?e = "PatientEntry 2 ''Bo'' 5 ''2024-01-01''"
  let ?h1 = "(entry_state ?e 1 ward_example)\<lparr>cin := []\<rparr>"
  have "entry_body 1 (ward_example\<lparr>cin := encode_entry ?e @ []\<rparr>) = Some ?h1"
    by (rule entry_body_entry) simp
  moreover have "ward_example\<lparr>cin := encode_entry ?e @ []\<rparr> = ward_example"
    by (simp add: ward_example_def)
  ultimately have run: "entry_body 1 ward_example = Some ?h1" by simp
  have allocated: "0 < next_addr ward_example" by (simp add: ward_example_def)
  with run present_only_writes [where h = ward_example and i = 1 and h' = ?h1 and a = 0]
  have "heap ?h1 0 = heap ward_example 0" by blast
  moreover have "heap ?h1 1 \<noteq> None" by (simp add: ward_example_def)
  ultimately show "\<exists>h'. entry_body 1 ward_example = Some h' \<and> 0 < next_addr ward_example \<and>
      heap h' 0 = heap ward_example 0 \<and> heap h' 1 \<noteq> None"
    using run allocated by blast
next
  have inv: "holds ledger_example
      [IncomeObj \<lparr>transaction_ID = 1, date = ''2024-01-01'', source = ''Salary'', amount = Value 1000\<rparr>]"
    by (auto simp: holds_def ledger_example_def)
  from menu_body_event [OF inv, where e = DisplayAll and rest = "[]"]
  obtain l1 where "menu_body (ledger_example\<lparr>cin := [IntItem 3]\<rparr>) = Some (3, l1)"
    and inv1: "holds l1 [IncomeObj \<lparr>transaction_ID = 1, date = ''2024-01-01'', source = ''Salary'',
      amount = Value 1000\<rparr>]"
    by auto
  moreover have "ledger_example\<lparr>cin := [IntItem 3]\<rparr> = ledger_example"
    by (simp add: ledger_example_def)
  ultimately have run: "menu_body ledger_example = Some (3, l1)" by simp
  have allocated: "0 < next_addr ledger_example" by (simp add: ledger_example_def)
  with run present_only_writes [where l = ledger_example and c = 3 and l' = l1 and a = 0]
  have "heap l1 0 = heap ledger_example 0" by blast
  moreover from inv1 have "transactions l1 = [0]" by (simp add: holds_def)
  ultimately show "\<exists>l'. menu_body ledger_example = Some (3, l') \<and> 0 < next_addr ledger_example \<and>
      heap l' 0 = heap ledger_example 0 \<and> transactions l' = [0]"
    using run allocated by blast
qed

section \<open>The run of the hospital program\<close>

text \<open>
  On a well-formed session the run of \<^verbatim>\<open>main\<close> on any input does what the loops of
  the session do: an extraction that yields a value yields it there too, and no
  indeterminate value is read.
\<close>

lemma extract_int_get_int:
  "get_int s = Some (v, s') \<Longrightarrow> extract_int var (False, s) = (Some v, False, s')"
  by (auto simp: get_int_def extract_int_def split: list.splits cin_item.splits)

lemma extract_word_get_word:
  "get_word s = Some (w, s') \<Longrightarrow> extract_word var (False, s) = (w, False, s')"
  by (auto simp: get_word_def extract_word_def split: list.splits cin_item.splits)

lemma Doctor_getdata_run_agrees:
  assumes "Doctor_getdata d s = Some (d', s')"
  shows "Doctor_getdata_run d (False, s) = (d', False, s')"
proof -
  from assms obtain nm s1 a s2 sp where
    nm: "get_word (put ''Enter Doctor Name: '' s) = Some (nm, s1)"
    and a: "get_int (put ''Enter Age: '' s1) = Some (a, s2)"
    and sp: "get_int (put ''Enter Specialist ID: '' s2) = Some (sp, s')"
    and d': "d' = d\<lparr>name := nm, age := Some a, doctor_specialist := Some sp\<rparr>"
    by (auto simp: Doctor_getdata_def bind_eq_Some_conv)
  show ?thesis
    by (simp add: Doctor_getdata_run_def extract_word_get_word [OF nm] extract_int_get_int [OF a]
        extract_int_get_int [OF sp] d')
qed

lemma Patient_getdata_run_agrees:
  assumes "Patient_getdata q s = Some (q', s')"
  shows "Patient_getdata_run q (False, s) = (q', False, s')"
proof -
  from assms obtain nm s1 a s2 ad where
    nm: "get_word (put ''Enter Patient Name: '' s) = Some (nm, s1)"
    and a: "get_int (put ''Enter Age: '' s1) = Some (a, s2)"
    and ad: "get_word (put ''Enter Admission Date: '' s2) = Some (ad, s')"
    and q': "q' = q\<lparr>name := nm, age := Some a, admission_date := ad\<rparr>"
    by (auto simp: Patient_getdata_def bind_eq_Some_conv)
  show ?thesis
    by (simp add: Patient_getdata_run_def extract_word_get_word [OF nm] extract_int_get_int [OF a]
        extract_word_get_word [OF ad] q')
qed

lemma getdata_run_agrees:
  "getdata p s = Some s' \<Longrightarrow> getdata_run p (False, s) = Some (False, s')"
  by (auto simp: getdata_def getdata_run_def bind_eq_Some_conv
      Doctor_getdata_run_agrees Patient_getdata_run_agrees
      split: option.splits person_obj.splits)

lemma entry_body_run_agrees:
  assumes "entry_body i s = Some s'"
  shows "entry_body_run junk i (False, s) = Some (False, s')"
proof -
  from assms obtain choice s1 where
    read: "get_int (put ''\<newline>Enter 1 for Doctor, 2 for Patient: '' s) = Some (choice, s1)"
    by (auto simp: entry_body_def bind_eq_Some_conv)
  obtain p s2 where made: "new_person choice s1 = (p, s2)" by (cases "new_person choice s1")
  from assms read made have "getdata p (s2\<lparr>people := (people s2)(i \<mapsto> p)\<rparr>) = Some s'"
    by (simp add: entry_body_def)
  then show ?thesis
    by (simp add: entry_body_run_def extract_int_get_int [OF read] stored_def made
        getdata_run_agrees)
qed

lemma entry_loop_run_agrees:
  "entry_loop i n s = Some s' \<Longrightarrow> entry_loop_run junk i n (False, s) = Some (False, s')"
proof (induction i n s rule: entry_loop.induct)
  case (1 i n s)
  show ?case
  proof (cases "i <s n")
    case False
    with "1.prems" show ?thesis by (simp add: entry_loop.simps entry_loop_run.simps)
  next
    case True
    with "1.prems" obtain s1 where body: "entry_body i s = Some s1"
      and rest: "entry_loop (i + 1) n s1 = Some s'"
      by (subst (asm) entry_loop.simps) (auto simp: bind_eq_Some_conv)
    from "1.IH" [OF True body rest]
    show ?thesis
      using True by (subst entry_loop_run.simps) (simp add: entry_body_run_agrees [OF body])
  qed
qed

lemma putdata_run_agrees: "putdata p s = Some s' \<Longrightarrow> putdata_run junk p s = Some s'"
  by (auto simp: putdata_def putdata_run_def Doctor_putdata_def Patient_putdata_def
      Doctor_putdata_run_def Patient_putdata_run_def Doctor_line_def Patient_line_def
      stored_def bind_eq_Some_conv split: option.splits person_obj.splits)

lemma display_loop_run_agrees:
  "display_loop i n s = Some s' \<Longrightarrow> display_loop_run junk i n s = Some s'"
proof (induction i n s rule: display_loop.induct)
  case (1 i n s)
  show ?case
  proof (cases "i <s n")
    case False
    with "1.prems" show ?thesis by (simp add: display_loop.simps display_loop_run.simps)
  next
    case True
    with "1.prems" obtain p s1 where p: "people s i = Some p" and shown: "putdata p s = Some s1"
      and rest: "display_loop (i + 1) n s1 = Some s'"
      by (subst (asm) display_loop.simps) (auto simp: bind_eq_Some_conv)
    from "1.IH" [OF True p shown rest]
    show ?thesis
      using True by (subst display_loop_run.simps) (simp add: p putdata_run_agrees [OF shown])
  qed
qed


text \<open>
  On any input an extraction changes the streams only, a pass of the first loop creates
  one object at the next address and stores the address in the slot of its index, and so
  the first loop fills the slots \<open>i\<close>, \<open>i + 1\<close>, ... up to \<open>n\<close> with the addresses of
  objects: the second and the third loop find an object behind every slot.
\<close>

lemma streams_only_people: "streams_only s s' \<Longrightarrow> people s' = people s"
proof -
  assume "streams_only s s'"
  then have "people s' = people (s\<lparr>cin := cin s', cout := cout s'\<rparr>)"
    unfolding streams_only_def by (rule arg_cong)
  then show ?thesis by simp
qed

lemma extract_int_streams: "extract_int var (f, s) = (v, f', s') \<Longrightarrow> streams_only s s'"
  by (auto simp: extract_int_def streams_only_def split: if_splits list.splits cin_item.splits scanned.splits)

lemma extract_word_streams: "extract_word var (f, s) = (v, f', s') \<Longrightarrow> streams_only s s'"
  by (auto simp: extract_word_def streams_only_def split: if_splits list.splits)

lemma Doctor_getdata_run_streams:
  assumes "Doctor_getdata_run d (f, s) = (d', f', s')"
  shows "streams_only s s'"
proof -
  obtain nm f1 s1 where nm: "extract_word (name d) (f, put ''Enter Doctor Name: '' s) = (nm, f1, s1)"
    by (metis prod_cases3)
  obtain a f2 s2 where a: "extract_int (age d) (f1, put ''Enter Age: '' s1) = (a, f2, s2)"
    by (metis prod_cases3)
  obtain sp f3 s3 where
    sp: "extract_int (doctor_specialist d) (f2, put ''Enter Specialist ID: '' s2) = (sp, f3, s3)"
    by (metis prod_cases3)
  from assms nm a sp have "s' = s3" by (simp add: Doctor_getdata_run_def)
  moreover have "streams_only s s1"
    by (rule streams_only_put_get [OF extract_word_streams [OF nm]])
  moreover have "streams_only s1 s2"
    by (rule streams_only_put_get [OF extract_int_streams [OF a]])
  moreover have "streams_only s2 s3"
    by (rule streams_only_put_get [OF extract_int_streams [OF sp]])
  ultimately show ?thesis by (blast intro: streams_only_trans)
qed

lemma Patient_getdata_run_streams:
  assumes "Patient_getdata_run q (f, s) = (q', f', s')"
  shows "streams_only s s'"
proof -
  obtain nm f1 s1 where nm: "extract_word (name q) (f, put ''Enter Patient Name: '' s) = (nm, f1, s1)"
    by (metis prod_cases3)
  obtain a f2 s2 where a: "extract_int (age q) (f1, put ''Enter Age: '' s1) = (a, f2, s2)"
    by (metis prod_cases3)
  obtain ad f3 s3 where
    ad: "extract_word (admission_date q) (f2, put ''Enter Admission Date: '' s2) = (ad, f3, s3)"
    by (metis prod_cases3)
  from assms nm a ad have "s' = s3" by (simp add: Patient_getdata_run_def)
  moreover have "streams_only s s1"
    by (rule streams_only_put_get [OF extract_word_streams [OF nm]])
  moreover have "streams_only s1 s2"
    by (rule streams_only_put_get [OF extract_int_streams [OF a]])
  moreover have "streams_only s2 s3"
    by (rule streams_only_put_get [OF extract_word_streams [OF ad]])
  ultimately show ?thesis by (blast intro: streams_only_trans)
qed

lemma getdata_run_effect:
  assumes "heap s p = Some obj"
  shows "\<exists>f' s' obj'. getdata_run p (f, s) = Some (f', s') \<and> heap s' = (heap s)(p \<mapsto> obj') \<and>
    next_addr s' = next_addr s \<and> people s' = people s"
proof (cases obj)
  case (DoctorObj d)
  obtain d' f1 s1 where run: "Doctor_getdata_run d (f, s) = (d', f1, s1)" by (metis prod_cases3)
  note io = Doctor_getdata_run_streams [OF run]
  from assms DoctorObj run
  have "getdata_run p (f, s) = Some (f1, s1\<lparr>heap := (heap s1)(p \<mapsto> DoctorObj d')\<rparr>)"
    by (simp add: getdata_run_def)
  then show ?thesis
    using streams_only_heap [OF io] streams_only_next_addr [OF io] streams_only_people [OF io]
    by auto
next
  case (PatientObj q)
  obtain q' f1 s1 where run: "Patient_getdata_run q (f, s) = (q', f1, s1)" by (metis prod_cases3)
  note io = Patient_getdata_run_streams [OF run]
  from assms PatientObj run
  have "getdata_run p (f, s) = Some (f1, s1\<lparr>heap := (heap s1)(p \<mapsto> PatientObj q')\<rparr>)"
    by (simp add: getdata_run_def)
  then show ?thesis
    using streams_only_heap [OF io] streams_only_next_addr [OF io] streams_only_people [OF io]
    by auto
qed

lemma new_person_effect:
  "\<exists>s' obj. new_person choice s = (next_addr s, s') \<and> heap s' = (heap s)(next_addr s \<mapsto> obj) \<and>
     next_addr s' = Suc (next_addr s) \<and> people s' = people s"
  by (auto simp: new_person_def new_Doctor_def new_Patient_def Doctor_ctor_def Patient_ctor_def
      new_obj_def)

lemma entry_body_run_effect:
  "\<exists>f' s' obj. entry_body_run junk i (f, s) = Some (f', s') \<and>
     heap s' = (heap s)(next_addr s \<mapsto> obj) \<and> next_addr s' = Suc (next_addr s) \<and>
     people s' = (people s)(i \<mapsto> next_addr s)"
proof -
  obtain choice f1 s1 where
    read: "extract_int None (f, put ''\<newline>Enter 1 for Doctor, 2 for Patient: '' s) = (choice, f1, s1)"
    by (metis prod_cases3)
  note io = streams_only_put_get [OF extract_int_streams [OF read]]
  obtain s2 obj where made: "new_person (stored junk (Choice i) choice) s1 = (next_addr s1, s2)"
    and heap2: "heap s2 = (heap s1)(next_addr s1 \<mapsto> obj)"
    and next2: "next_addr s2 = Suc (next_addr s1)" and people2: "people s2 = people s1"
    using new_person_effect by blast
  let ?s3 = "s2\<lparr>people := (people s2)(i \<mapsto> next_addr s1)\<rparr>"
  have "heap ?s3 (next_addr s1) = Some obj" by (simp add: heap2)
  from getdata_run_effect [OF this, of f1]
  obtain f' s' obj' where got: "getdata_run (next_addr s1) (f1, ?s3) = Some (f', s')"
    and heap': "heap s' = (heap ?s3)(next_addr s1 \<mapsto> obj')"
    and next': "next_addr s' = next_addr ?s3" and people': "people s' = people ?s3"
    by blast
  have "entry_body_run junk i (f, s) = Some (f', s')"
    by (simp add: entry_body_run_def read made got)
  moreover have "heap s' = (heap s)(next_addr s \<mapsto> obj')"
    using heap' heap2 streams_only_heap [OF io] streams_only_next_addr [OF io] by simp
  moreover have "next_addr s' = Suc (next_addr s)"
    using next' next2 streams_only_next_addr [OF io] by simp
  moreover have "people s' = (people s)(i \<mapsto> next_addr s)"
    using people' people2 streams_only_people [OF io] streams_only_next_addr [OF io] by simp
  ultimately show ?thesis by blast
qed


lemma entry_loop_run_slots:
  "\<exists>f' s'. entry_loop_run junk i n (f, s) = Some (f', s') \<and>
     next_addr s' = next_addr s + nat (sint n - sint i) \<and>
     (\<forall>j. sint j < sint i \<longrightarrow> people s' j = people s j) \<and>
     (\<forall>a < next_addr s. heap s' a = heap s a) \<and>
     (\<forall>k < nat (sint n - sint i).
        people s' (i + of_nat k) = Some (next_addr s + k) \<and> heap s' (next_addr s + k) \<noteq> None)"
proof (induction "nat (sint n - sint i)" arbitrary: i f s)
  case 0
  then have "\<not> i <s n" by (simp add: word_sless_alt)
  with 0 show ?case by (simp add: entry_loop_run.simps)
next
  case (Suc m)
  then have lt: "i <s n" by (simp add: word_sless_alt)
  note succ = sint_succ [OF lt]
  from Suc.hyps(2) succ have m: "m = nat (sint n - sint (i + 1))" by simp
  obtain f1 s1 obj where body: "entry_body_run junk i (f, s) = Some (f1, s1)"
    and heap1: "heap s1 = (heap s)(next_addr s \<mapsto> obj)"
    and next1: "next_addr s1 = Suc (next_addr s)"
    and people1: "people s1 = (people s)(i \<mapsto> next_addr s)"
    using entry_body_run_effect by blast
  from Suc.hyps(1) [OF m, of f1 s1]
  obtain f' s' where loop: "entry_loop_run junk (i + 1) n (f1, s1) = Some (f', s')"
    and next': "next_addr s' = next_addr s1 + nat (sint n - sint (i + 1))"
    and people': "\<And>j. sint j < sint (i + 1) \<Longrightarrow> people s' j = people s1 j"
    and heap': "\<And>a. a < next_addr s1 \<Longrightarrow> heap s' a = heap s1 a"
    and slots': "\<And>k. k < nat (sint n - sint (i + 1)) \<Longrightarrow>
       people s' (i + 1 + of_nat k) = Some (next_addr s1 + k) \<and> heap s' (next_addr s1 + k) \<noteq> None"
    by blast
  have run: "entry_loop_run junk i n (f, s) = Some (f', s')"
    using lt by (subst entry_loop_run.simps) (simp add: body loop)
  have fresh: "next_addr s' = next_addr s + nat (sint n - sint i)"
    using next' next1 m Suc.hyps(2) by simp
  have people: "people s' j = people s j" if "sint j < sint i" for j
  proof -
    from that have "j \<noteq> i" by auto
    moreover from that succ have "people s' j = people s1 j" by (intro people') simp
    ultimately show ?thesis by (simp add: people1)
  qed
  have heap: "heap s' a = heap s a" if "a < next_addr s" for a
  proof -
    from that next1 have "heap s' a = heap s1 a" by (intro heap') simp
    with that show ?thesis by (simp add: heap1)
  qed
  have slots: "people s' (i + of_nat k) = Some (next_addr s + k) \<and> heap s' (next_addr s + k) \<noteq> None"
    if "k < nat (sint n - sint i)" for k
  proof (cases k)
    case 0
    have "people s' i = people s1 i" using succ by (intro people') simp
    moreover have "heap s' (next_addr s) = heap s1 (next_addr s)" using next1 by (intro heap') simp
    ultimately show ?thesis using 0 by (simp add: people1 heap1)
  next
    case (Suc k')
    with that Suc.hyps(2) m have "k' < nat (sint n - sint (i + 1))" by simp
    from slots' [OF this] show ?thesis by (simp add: Suc next1 add.assoc)
  qed
  from run fresh people heap slots show ?case by blast
qed

lemma putdata_run_put:
  "heap s p \<noteq> None \<Longrightarrow> \<exists>out. putdata_run junk p s = Some (put out s)"
  by (auto simp: putdata_run_def Doctor_putdata_run_def Patient_putdata_run_def
      split: option.splits person_obj.splits)

lemma display_loop_run_slots:
  "(\<And>k. k < nat (sint n - sint i) \<Longrightarrow>
      people s (i + of_nat k) = Some (a + k) \<and> heap s (a + k) \<noteq> None) \<Longrightarrow>
   \<exists>out. display_loop_run junk i n s = Some (put out s)"
proof (induction "nat (sint n - sint i)" arbitrary: i a s)
  case 0
  then have "\<not> i <s n" by (simp add: word_sless_alt)
  then have "display_loop_run junk i n s = Some (put [] s)"
    by (simp add: display_loop_run.simps put_Nil)
  then show ?case by blast
next
  case (Suc m)
  then have lt: "i <s n" by (simp add: word_sless_alt)
  note succ = sint_succ [OF lt]
  from Suc.hyps(2) succ have m: "m = nat (sint n - sint (i + 1))" by simp
  from Suc.prems [of 0] Suc.hyps(2)
  have p: "people s i = Some a" and obj: "heap s a \<noteq> None" by simp_all
  from putdata_run_put [OF obj] obtain line where line: "putdata_run junk a s = Some (put line s)"
    by blast
  have "people (put line s) (i + 1 + of_nat k) = Some (Suc a + k) \<and> heap (put line s) (Suc a + k) \<noteq> None"
    if "k < nat (sint n - sint (i + 1))" for k
  proof -
    from that m Suc.hyps(2) have "Suc k < nat (sint n - sint i)" by simp
    from Suc.prems [OF this] show ?thesis by (simp add: put_def add.assoc)
  qed
  from Suc.hyps(1) [OF m this]
  obtain out where "display_loop_run junk (i + 1) n (put line s) = Some (put out (put line s))"
    by blast
  then have "display_loop_run junk i n s = Some (put (line @ out) s)"
    using lt by (subst display_loop_run.simps) (simp add: p line put_put)
  then show ?case by blast
qed


lemma delete_loop_any:
  assumes "\<And>k. k < nat (sint n - sint i) \<Longrightarrow>
      people s (i + of_nat k) = Some (a + k) \<and> heap s (a + k) \<noteq> None"
  shows "delete_loop i n s =
    Some (s\<lparr>heap := (\<lambda>x. if a \<le> x \<and> x < a + nat (sint n - sint i) then None else heap s x)\<rparr>)"
proof -
  define objs where "objs = map (\<lambda>k. the (heap s (a + k))) [0 ..< nat (sint n - sint i)]"
  have len: "length objs = nat (sint n - sint i)" by (simp add: objs_def)
  have "slots s i a objs"
    unfolding slots_def using assms by (auto simp: objs_def)
  from delete_loop_slots [OF this len] show ?thesis by (simp add: len)
qed

lemma hospital_main_killed:
  "int cap < sint m \<Longrightarrow>
   hospital_main junk cap (t\<lparr>cin := IntItem m # later\<rparr>) =
     Some (Killed (t\<lparr>cin := later, cout := cout t @ ''Enter number of records: ''\<rparr>))"
  by (simp add: hospital_main_def extract_int_def put_def stored_def)

lemma hospital_main_exits:
  assumes read: "extract_int None (False, put ''Enter number of records: '' t) = (v, f, s1)"
    and room: "sint (stored junk Count v) \<le> int cap"
  shows "\<exists>t'. hospital_main junk cap t = Some (Exit 0 t') \<and>
    next_addr t' = next_addr t + nat (sint (stored junk Count v)) \<and>
    (\<forall>a. next_addr t \<le> a \<and> a < next_addr t' \<longrightarrow> heap t' a = None)"
proof -
  define n where "n = stored junk Count v"
  define s2 where "s2 = s1\<lparr>people := Map.empty\<rparr>"
  note io = streams_only_put_get [OF extract_int_streams [OF read]]
  have next2: "next_addr s2 = next_addr t" using streams_only_next_addr [OF io] by (simp add: s2_def)
  from entry_loop_run_slots [of junk 0 n f s2]
  obtain f' s3 where entered: "entry_loop_run junk 0 n (f, s2) = Some (f', s3)"
    and next3: "next_addr s3 = next_addr s2 + nat (sint n - sint (0 :: int32))"
    and slots3: "\<And>k. k < nat (sint n - sint (0 :: int32)) \<Longrightarrow>
      people s3 (0 + of_nat k) = Some (next_addr s2 + k) \<and> heap s3 (next_addr s2 + k) \<noteq> None"
    by blast
  define s4 where "s4 = put ''\<newline>--- Records ---\<newline>'' s3"
  have slots4: "people s4 (0 + of_nat k) = Some (next_addr s2 + k) \<and> heap s4 (next_addr s2 + k) \<noteq> None"
    if "k < nat (sint n - sint (0 :: int32))" for k
    using slots3 [OF that] by (simp add: s4_def put_def)
  from display_loop_run_slots [of n 0 s4 "next_addr s2" junk, OF slots4]
  obtain out where shown: "display_loop_run junk 0 n s4 = Some (put out s4)" by blast
  define s5 where "s5 = put out s4"
  have slots5: "people s5 (0 + of_nat k) = Some (next_addr s2 + k) \<and>
      heap s5 (next_addr s2 + k) \<noteq> None"
    if "k < nat (sint n - sint (0 :: int32))" for k
    using slots4 [OF that] by (simp add: s5_def put_def)
  define s6 where "s6 = s5\<lparr>heap := (\<lambda>x. if next_addr s2 \<le> x \<and>
      x < next_addr s2 + nat (sint n - sint (0 :: int32)) then None else heap s5 x)\<rparr>"
  have freed: "delete_loop 0 n s5 = Some s6"
    unfolding s6_def by (rule delete_loop_any [of n 0 s5 "next_addr s2", OF slots5])
  have "hospital_main junk cap t = Some (Exit 0 s6)"
    using room by (simp add: hospital_main_def read n_def [symmetric] s2_def [symmetric] entered
        s4_def [symmetric] shown s5_def [symmetric] freed)
  moreover have next6: "next_addr s6 = next_addr t + nat (sint n)"
    using next3 next2 by (simp add: s6_def s5_def s4_def put_def)
  moreover have "heap s6 a = None" if "next_addr t \<le> a" "a < next_addr s6" for a
    using that next6 by (simp add: s6_def next2)
  ultimately show ?thesis by (auto simp: n_def)
qed

lemma hospital_main_outcome:
  "\<exists>t'. hospital_main junk cap t = Some (Exit 0 t') \<or> hospital_main junk cap t = Some (Killed t')"
proof -
  obtain v f s1 where read: "extract_int None (False, put ''Enter number of records: '' t) = (v, f, s1)"
    by (metis prod_cases3)
  show ?thesis
  proof (cases "sint (stored junk Count v) \<le> int cap")
    case True
    from hospital_main_exits [OF read True] show ?thesis by blast
  next
    case False
    with read have "hospital_main junk cap t = Some (Killed s1)"
      by (simp add: hospital_main_def)
    then show ?thesis by blast
  qed
qed

lemma hospital_main_no_record:
  "sint m \<le> 0 \<Longrightarrow>
   hospital_main junk cap (t\<lparr>cin := IntItem m # later\<rparr>) =
     Some (Exit 0 (t\<lparr>cin := later,
       cout := cout t @ ''Enter number of records: '' @ ''\<newline>--- Records ---\<newline>'',
       people := Map.empty\<rparr>))"
  by (simp add: hospital_main_def extract_int_def put_def stored_def word_sless_alt
      entry_loop_run.simps display_loop_run.simps delete_loop.simps)

lemma hospital_main_no_number:
  "scan_int (item_text item) = No_number 0 \<Longrightarrow> \<forall>v. item \<noteq> IntItem v \<Longrightarrow>
   hospital_main junk cap (t\<lparr>cin := item # later\<rparr>) =
     Some (Exit 0 (t\<lparr>cin := item # later,
       cout := cout t @ ''Enter number of records: '' @ ''\<newline>--- Records ---\<newline>'',
       people := Map.empty\<rparr>))"
  by (cases item)
    (simp_all add: hospital_main_def extract_int_def put_def stored_def word_sless_alt
      entry_loop_run.simps display_loop_run.simps delete_loop.simps)



text \<open>
  Claim C8, as amended.  For a count \<open>n\<close> that the stack has room for and a session of
  \<open>n\<close> entries, the hospital program reads the count, creates and populates one record per
  entry, \<open>n\<close> of them, writes the header and the line of every record in creation order,
  deletes the records and returns 0; whatever follows the entries on the input is left
  unread, and the output is the prompts, the header and the lines, and nothing else.
  On any input whatever the run ends, and it ends with \<^verbatim>\<open>main\<close> returning 0 or with
  the process killed; \<^verbatim>\<open>main\<close> returns no other code.  With a count on the input, the
  process is killed exactly when the count is beyond the room of the stack, right after
  the count is read; otherwise \<^verbatim>\<open>main\<close> returns 0 after creating as many records as
  the count says, none for a count of 0 or less, and deleting each of them.  A count that
  is no number is stored as 0: the program writes the header and returns 0.
\<close>

theorem hospital_main_run:
  assumes valid: "list_all valid_entry es" and count: "sint n = int (length es)"
    and room: "length es \<le> stack_slots"
  shows "(\<exists>s lines.
      hospital_main junk stack_slots
        (hospital_init (IntItem n # concat (map encode_entry es) @ rest)) = Some (Exit 0 s) \<and>
      map person_line (objects_of es 0 0) = map Some lines \<and>
      cout s = ''Enter number of records: '' @ concat (map entry_prompts es) @
               ''\<newline>--- Records ---\<newline>'' @ concat lines \<and>
      cin s = rest \<and> next_addr s = length es \<and> heap s = Map.empty) \<and>
    (\<exists>t'. hospital_main junk' stack' t = Some (Exit 0 t') \<or>
          hospital_main junk' stack' t = Some (Killed t')) \<and>
    (hospital_main junk' stack' t = Some (Exit code t') \<longrightarrow> code = 0) \<and>
    (int stack' < sint m \<longrightarrow>
       hospital_main junk' stack' (t\<lparr>cin := IntItem m # later\<rparr>) =
         Some (Killed (t\<lparr>cin := later, cout := cout t @ ''Enter number of records: ''\<rparr>))) \<and>
    (sint m \<le> int stack' \<longrightarrow>
       (\<exists>t'. hospital_main junk' stack' (t\<lparr>cin := IntItem m # later\<rparr>) = Some (Exit 0 t') \<and>
          next_addr t' = next_addr t + nat (sint m) \<and>
          (\<forall>a. next_addr t \<le> a \<and> a < next_addr t' \<longrightarrow> heap t' a = None))) \<and>
    (sint m \<le> 0 \<longrightarrow>
       hospital_main junk' stack' (t\<lparr>cin := IntItem m # later\<rparr>) =
         Some (Exit 0 (t\<lparr>cin := later,
           cout := cout t @ ''Enter number of records: '' @ ''\<newline>--- Records ---\<newline>'',
           people := Map.empty\<rparr>))) \<and>
    (scan_int w = No_number 0 \<longrightarrow>
       hospital_main junk' stack' (t\<lparr>cin := WordItem w # later\<rparr>) =
         Some (Exit 0 (t\<lparr>cin := WordItem w # later,
           cout := cout t @ ''Enter number of records: '' @ ''\<newline>--- Records ---\<newline>'',
           people := Map.empty\<rparr>)))"
proof -
  define s1 where "s1 = (hospital_init [])\<lparr>cout := ''Enter number of records: ''\<rparr>"
  define s2 where "s2 = (entries_state es 0 s1)\<lparr>cin := rest\<rparr>"
  define s3 where "s3 = put ''\<newline>--- Records ---\<newline>'' s2"
  define objs where "objs = objects_of es 0 0"
  obtain lines where lines: "map person_line objs = map Some lines"
    using lines_objects_of objs_def by blast
  define s4 where "s4 = put (concat lines) s3"
  define s5 where "s5 = s4\<lparr>heap := (\<lambda>x. if 0 \<le> x \<and> x < 0 + length objs then None else heap s4 x)\<rparr>"
  have len: "length es = nat (sint n)" using count by simp
  have fits: "\<not> int stack_slots < sint n" using count room by simp
  have len0: "length es = nat (sint n - sint (0 :: int32))" using len by simp
  have lobjs: "length objs = nat (sint n - sint (0 :: int32))"
    using len by (simp add: objs_def length_objects_of)
  have read: "extract_int None (False, put ''Enter number of records: ''
        (hospital_init (IntItem n # concat (map encode_entry es) @ rest))) =
      (Some n, False, s1\<lparr>cin := concat (map encode_entry es) @ rest\<rparr>)"
    by (simp add: extract_int_def put_def hospital_init_def s1_def)
  have arr: "s1\<lparr>cin := concat (map encode_entry es) @ rest, people := Map.empty\<rparr> =
      s1\<lparr>cin := concat (map encode_entry es) @ rest\<rparr>"
    by (simp add: s1_def hospital_init_def)
  have "entry_loop 0 n (s1\<lparr>cin := concat (map encode_entry es) @ rest\<rparr>) = Some s2"
    unfolding s2_def by (rule entry_loop_entries [OF valid len0])
  then have entered: "entry_loop_run junk 0 n (False, s1\<lparr>cin := concat (map encode_entry es) @ rest\<rparr>) =
      Some (False, s2)"
    by (rule entry_loop_run_agrees)
  have "slots (entries_state es 0 s1) 0 (next_addr s1) (objects_of es (doctor_count s1) (patient_count s1))"
    by (rule slots_entries_state [OF len0])
  then have sl2: "slots s2 0 0 objs"
    by (simp add: slots_def s2_def s1_def hospital_init_def objs_def)
  then have sl3: "slots s3 0 0 objs" by (simp add: s3_def slots_put)
  then have sl4: "slots s4 0 0 objs" by (simp add: s4_def slots_put)
  have "display_loop 0 n s3 = Some s4"
    unfolding s4_def by (rule display_loop_slots [OF sl3 lobjs lines])
  then have shown: "display_loop_run junk 0 n s3 = Some s4"
    by (rule display_loop_run_agrees)
  have freed: "delete_loop 0 n s4 = Some s5"
    unfolding s5_def by (rule delete_loop_slots [OF sl4 lobjs])
  have run: "hospital_main junk stack_slots
      (hospital_init (IntItem n # concat (map encode_entry es) @ rest)) = Some (Exit 0 s5)"
    by (simp add: hospital_main_def read stored_def fits arr entered shown freed s3_def [symmetric])
  have out: "cout s5 = ''Enter number of records: '' @ concat (map entry_prompts es) @
      ''\<newline>--- Records ---\<newline>'' @ concat lines"
    by (simp add: s5_def s4_def s3_def s2_def put_def cout_entries_state s1_def)
  have inp: "cin s5 = rest" by (simp add: s5_def s4_def s3_def s2_def put_def)
  have next5: "next_addr s5 = length es"
    by (simp add: s5_def s4_def s3_def s2_def put_def next_addr_entries_state s1_def hospital_init_def)
  have heap5: "heap s5 = Map.empty"
  proof (rule ext)
    fix x
    show "heap s5 x = None"
    proof (cases "x < length objs")
      case True
      then show ?thesis by (simp add: s5_def)
    next
      case False
      then have "next_addr s1 + length es \<le> x"
        by (simp add: objs_def length_objects_of s1_def hospital_init_def)
      have "heap s5 x = heap (entries_state es 0 s1) x"
        using False by (simp add: s5_def s4_def s3_def s2_def put_def)
      moreover have "heap (entries_state es 0 s1) x = heap s1 x"
        using \<open>next_addr s1 + length es \<le> x\<close> by (rule heap_entries_state_above)
      moreover have "heap s1 x = None" by (simp add: s1_def hospital_init_def)
      ultimately show ?thesis by simp
    qed
  qed
  from run lines out inp next5 heap5
  have session: "\<exists>s lines.
      hospital_main junk stack_slots
        (hospital_init (IntItem n # concat (map encode_entry es) @ rest)) = Some (Exit 0 s) \<and>
      map person_line (objects_of es 0 0) = map Some lines \<and>
      cout s = ''Enter number of records: '' @ concat (map entry_prompts es) @
               ''\<newline>--- Records ---\<newline>'' @ concat lines \<and>
      cin s = rest \<and> next_addr s = length es \<and> heap s = Map.empty"
    unfolding objs_def by blast
  have any: "\<exists>t'. hospital_main junk' stack' t = Some (Exit 0 t') \<or>
      hospital_main junk' stack' t = Some (Killed t')"
    by (rule hospital_main_outcome)
  then have code: "hospital_main junk' stack' t = Some (Exit code t') \<longrightarrow> code = 0"
    by auto
  have killed: "int stack' < sint m \<longrightarrow>
      hospital_main junk' stack' (t\<lparr>cin := IntItem m # later\<rparr>) =
        Some (Killed (t\<lparr>cin := later, cout := cout t @ ''Enter number of records: ''\<rparr>))"
    by (simp add: hospital_main_killed)
  have exits: "sint m \<le> int stack' \<longrightarrow>
      (\<exists>t'. hospital_main junk' stack' (t\<lparr>cin := IntItem m # later\<rparr>) = Some (Exit 0 t') \<and>
         next_addr t' = next_addr t + nat (sint m) \<and>
         (\<forall>a. next_addr t \<le> a \<and> a < next_addr t' \<longrightarrow> heap t' a = None))"
  proof
    assume fits: "sint m \<le> int stack'"
    have read: "extract_int None (False, put ''Enter number of records: '' (t\<lparr>cin := IntItem m # later\<rparr>)) =
        (Some m, False, t\<lparr>cin := later, cout := cout t @ ''Enter number of records: ''\<rparr>)"
      by (simp add: extract_int_def put_def)
    from fits have "sint (stored junk' Count (Some m)) \<le> int stack'" by (simp add: stored_def)
    from hospital_main_exits [OF read this]
    show "\<exists>t'. hospital_main junk' stack' (t\<lparr>cin := IntItem m # later\<rparr>) = Some (Exit 0 t') \<and>
        next_addr t' = next_addr t + nat (sint m) \<and>
        (\<forall>a. next_addr t \<le> a \<and> a < next_addr t' \<longrightarrow> heap t' a = None)"
      by (simp add: stored_def)
  qed
  have none: "sint m \<le> 0 \<longrightarrow>
      hospital_main junk' stack' (t\<lparr>cin := IntItem m # later\<rparr>) =
        Some (Exit 0 (t\<lparr>cin := later,
          cout := cout t @ ''Enter number of records: '' @ ''\<newline>--- Records ---\<newline>'',
          people := Map.empty\<rparr>))"
    by (simp add: hospital_main_no_record)
  have word: "scan_int w = No_number 0 \<longrightarrow>
      hospital_main junk' stack' (t\<lparr>cin := WordItem w # later\<rparr>) =
        Some (Exit 0 (t\<lparr>cin := WordItem w # later,
          cout := cout t @ ''Enter number of records: '' @ ''\<newline>--- Records ---\<newline>'',
          people := Map.empty\<rparr>))"
    using hospital_main_no_number [of "WordItem w"] by simp
  from session any code killed exits none word show ?thesis by blast
qed


theorem hospital_main_run_witness:
  "list_all valid_entry [DoctorEntry ''Asha'' 34 7, PatientEntry 2 ''Bo'' 5 ''2024-01-01''] \<and>
   sint (2 :: int32) =
     int (length [DoctorEntry ''Asha'' 34 7, PatientEntry 2 ''Bo'' 5 ''2024-01-01'']) \<and>
   length [DoctorEntry ''Asha'' 34 7, PatientEntry 2 ''Bo'' 5 ''2024-01-01''] \<le> (1048576 :: nat) \<and>
   (\<exists>s. hospital_main zeros 1048576 (hospital_init
        [IntItem 2, IntItem 1, WordItem ''Asha'', IntItem 34, IntItem 7,
         IntItem 2, WordItem ''Bo'', IntItem 5, WordItem ''2024-01-01'', IntItem 77]) =
        Some (Exit 0 s) \<and>
      cout s =
        ''Enter number of records: '' @
        ''\<newline>Enter 1 for Doctor, 2 for Patient: Enter Doctor Name: Enter Age: Enter Specialist ID: '' @
        ''\<newline>Enter 1 for Doctor, 2 for Patient: Enter Patient Name: Enter Age: Enter Admission Date: '' @
        ''\<newline>--- Records ---\<newline>'' @
        ''Doctor -> Name: Asha, Age: 34, Specialist ID: 7, Doctor ID: 1\<newline>'' @
        ''Patient -> Name: Bo, Age: 5, Admission Date: 2024-01-01, Patient ID: 1\<newline>'' \<and>
      cin s = [IntItem 77] \<and> next_addr s = 2 \<and> heap s = Map.empty) \<and>
   int 1048576 < sint (1100000 :: int32) \<and>
   hospital_main zeros 1048576 (hospital_init [IntItem 1100000, IntItem 1]) =
     Some (Killed ((hospital_init [IntItem 1])\<lparr>cout := ''Enter number of records: ''\<rparr>)) \<and>
   sint (3 :: int32) \<le> int 1048576 \<and>
   (\<exists>t'. hospital_main zeros 1048576 (hospital_init [IntItem 3, WordItem ''x'']) = Some (Exit 0 t') \<and>
      next_addr t' = 3 \<and> heap t' 0 = None \<and> heap t' 1 = None \<and> heap t' 2 = None) \<and>
   sint (- 1 :: int32) \<le> 0 \<and>
   hospital_main zeros 1048576 (hospital_init [IntItem (- 1), IntItem 1]) =
     Some (Exit 0 ((hospital_init [IntItem 1])
       \<lparr>cout := ''Enter number of records: \<newline>--- Records ---\<newline>''\<rparr>)) \<and>
   scan_int ''abc'' = No_number 0 \<and>
   hospital_main zeros 1048576 (hospital_init [WordItem ''abc'', IntItem 1]) =
     Some (Exit 0 ((hospital_init [WordItem ''abc'', IntItem 1])
       \<lparr>cout := ''Enter number of records: \<newline>--- Records ---\<newline>''\<rparr>)) \<and>
   hospital_main zeros 1048576 (hospital_init [IntItem 1]) =
     Some (Exit 0
       \<lparr>cin = [],
        cout = ''Enter number of records: '' @
          ''\<newline>Enter 1 for Doctor, 2 for Patient: Enter Patient Name: Enter Age: Enter Admission Date: '' @
          ''\<newline>--- Records ---\<newline>'' @
          ''Patient -> Name: , Age: 0, Admission Date: , Patient ID: 1\<newline>'',
        heap = Map.empty, next_addr = 1, doctor_count = 0, patient_count = 1,
        people = [0 \<mapsto> 0]\<rparr>)"
proof -
  let ?es = "[DoctorEntry ''Asha'' 34 7, PatientEntry 2 ''Bo'' 5 ''2024-01-01'']"
  let ?t = "hospital_init []"
  have valid: "list_all valid_entry ?es" by simp
  have len: "sint (2 :: int32) = int (length ?es)" by simp
  have room: "length ?es \<le> (1048576 :: nat)" by simp
  have big: "int 1048576 < sint (1100000 :: int32)" by simp
  have small: "sint (3 :: int32) \<le> int 1048576" by simp
  have negative: "sint (- 1 :: int32) \<le> 0" by simp
  have abc: "scan_int ''abc'' = No_number 0"
    by (simp add: scan_int_def is_digit_def Let_def)
  note run = hospital_main_run [OF valid len room, where rest = "[IntItem 77]" and junk = zeros
      and junk' = zeros and stack' = 1048576 and t = ?t]
  from run [where m = 0 and w = "[]" and later = "[]"]
  have "\<exists>s lines.
      hospital_main zeros 1048576
        (hospital_init (IntItem 2 # concat (map encode_entry ?es) @ [IntItem 77])) = Some (Exit 0 s) \<and>
      map person_line (objects_of ?es 0 0) = map Some lines \<and>
      cout s = ''Enter number of records: '' @ concat (map entry_prompts ?es) @
               ''\<newline>--- Records ---\<newline>'' @ concat lines \<and>
      cin s = [IntItem 77] \<and> next_addr s = length ?es \<and> heap s = Map.empty"
    by blast
  then obtain s lines where
    main: "hospital_main zeros 1048576
      (hospital_init (IntItem 2 # concat (map encode_entry ?es) @ [IntItem 77])) = Some (Exit 0 s)"
    and lines: "map person_line (objects_of ?es 0 0) = map Some lines"
    and out: "cout s = ''Enter number of records: '' @ concat (map entry_prompts ?es) @
      ''\<newline>--- Records ---\<newline>'' @ concat lines"
    and rest: "cin s = [IntItem 77]" "next_addr s = length ?es" "heap s = Map.empty"
    by blast
  from lines have "lines =
      [''Doctor -> Name: Asha, Age: 34, Specialist ID: 7, Doctor ID: 1\<newline>'',
       ''Patient -> Name: Bo, Age: 5, Admission Date: 2024-01-01, Patient ID: 1\<newline>'']"
    by (cases lines; cases "tl lines")
      (auto simp: person_line_def Doctor_line_def Patient_line_def
        show_int_1 show_int_5 show_int_7 show_int_34)
  with main out rest have session: "\<exists>s. hospital_main zeros 1048576 (hospital_init
        [IntItem 2, IntItem 1, WordItem ''Asha'', IntItem 34, IntItem 7,
         IntItem 2, WordItem ''Bo'', IntItem 5, WordItem ''2024-01-01'', IntItem 77]) =
        Some (Exit 0 s) \<and>
      cout s =
        ''Enter number of records: '' @
        ''\<newline>Enter 1 for Doctor, 2 for Patient: Enter Doctor Name: Enter Age: Enter Specialist ID: '' @
        ''\<newline>Enter 1 for Doctor, 2 for Patient: Enter Patient Name: Enter Age: Enter Admission Date: '' @
        ''\<newline>--- Records ---\<newline>'' @
        ''Doctor -> Name: Asha, Age: 34, Specialist ID: 7, Doctor ID: 1\<newline>'' @
        ''Patient -> Name: Bo, Age: 5, Admission Date: 2024-01-01, Patient ID: 1\<newline>'' \<and>
      cin s = [IntItem 77] \<and> next_addr s = 2 \<and> heap s = Map.empty"
    by (intro exI [of _ s]) simp
  from run [where m = 1100000 and later = "[IntItem 1]" and w = "[]"]
  have "int 1048576 < sint (1100000 :: int32) \<longrightarrow>
      hospital_main zeros 1048576 (?t\<lparr>cin := [IntItem 1100000, IntItem 1]\<rparr>) =
        Some (Killed (?t\<lparr>cin := [IntItem 1], cout := cout ?t @ ''Enter number of records: ''\<rparr>))"
    by blast
  with big have killed: "hospital_main zeros 1048576 (hospital_init [IntItem 1100000, IntItem 1]) =
      Some (Killed ((hospital_init [IntItem 1])\<lparr>cout := ''Enter number of records: ''\<rparr>))"
    by (simp add: hospital_init_def)
  from run [where m = 3 and later = "[WordItem ''x'']" and w = "[]"]
  have "sint (3 :: int32) \<le> int 1048576 \<longrightarrow>
      (\<exists>t'. hospital_main zeros 1048576 (?t\<lparr>cin := [IntItem 3, WordItem ''x'']\<rparr>) = Some (Exit 0 t') \<and>
         next_addr t' = next_addr ?t + nat (sint (3 :: int32)) \<and>
         (\<forall>a. next_addr ?t \<le> a \<and> a < next_addr t' \<longrightarrow> heap t' a = None))"
    by blast
  with small obtain t' where
    "hospital_main zeros 1048576 (?t\<lparr>cin := [IntItem 3, WordItem ''x'']\<rparr>) = Some (Exit 0 t')"
    and "next_addr t' = next_addr ?t + nat (sint (3 :: int32))"
    and "\<forall>a. next_addr ?t \<le> a \<and> a < next_addr t' \<longrightarrow> heap t' a = None"
    by blast
  then have three: "\<exists>t'. hospital_main zeros 1048576 (hospital_init [IntItem 3, WordItem ''x'']) = Some (Exit 0 t') \<and>
      next_addr t' = 3 \<and> heap t' 0 = None \<and> heap t' 1 = None \<and> heap t' 2 = None"
    by (intro exI [of _ t']) (simp add: hospital_init_def)
  from run [where m = "- 1" and later = "[IntItem 1]" and w = "[]"]
  have "sint (- 1 :: int32) \<le> 0 \<longrightarrow>
      hospital_main zeros 1048576 (?t\<lparr>cin := [IntItem (- 1), IntItem 1]\<rparr>) =
        Some (Exit 0 (?t\<lparr>cin := [IntItem 1],
          cout := cout ?t @ ''Enter number of records: '' @ ''\<newline>--- Records ---\<newline>'',
          people := Map.empty\<rparr>))"
    by blast
  with negative have none: "hospital_main zeros 1048576 (hospital_init [IntItem (- 1), IntItem 1]) =
      Some (Exit 0 ((hospital_init [IntItem 1])
        \<lparr>cout := ''Enter number of records: \<newline>--- Records ---\<newline>''\<rparr>))"
    by (simp add: hospital_init_def)
  from run [where m = 0 and later = "[IntItem 1]" and w = "''abc''"]
  have "scan_int ''abc'' = No_number 0 \<longrightarrow>
      hospital_main zeros 1048576 (?t\<lparr>cin := [WordItem ''abc'', IntItem 1]\<rparr>) =
        Some (Exit 0 (?t\<lparr>cin := [WordItem ''abc'', IntItem 1],
          cout := cout ?t @ ''Enter number of records: '' @ ''\<newline>--- Records ---\<newline>'',
          people := Map.empty\<rparr>))"
    by blast
  with abc have word: "hospital_main zeros 1048576 (hospital_init [WordItem ''abc'', IntItem 1]) =
      Some (Exit 0 ((hospital_init [WordItem ''abc'', IntItem 1])
        \<lparr>cout := ''Enter number of records: \<newline>--- Records ---\<newline>''\<rparr>))"
    by (simp add: hospital_init_def)
  have early: "hospital_main zeros 1048576 (hospital_init [IntItem 1]) =
     Some (Exit 0
       \<lparr>cin = [],
        cout = ''Enter number of records: '' @
          ''\<newline>Enter 1 for Doctor, 2 for Patient: Enter Patient Name: Enter Age: Enter Admission Date: '' @
          ''\<newline>--- Records ---\<newline>'' @
          ''Patient -> Name: , Age: 0, Admission Date: , Patient ID: 1\<newline>'',
        heap = Map.empty, next_addr = 1, doctor_count = 0, patient_count = 1,
        people = [0 \<mapsto> 0]\<rparr>)"
    by (simp add: hospital_main_def extract_int_def extract_word_def put_def hospital_init_def
        stored_def zeros_def word_sless_alt entry_loop_run.simps display_loop_run.simps
        delete_loop.simps entry_body_run_def new_person_def new_Patient_def Patient_ctor_def
        new_obj_def getdata_run_def Patient_getdata_run_def putdata_run_def
        Patient_putdata_run_def delete_obj_def show_int_0 show_int_1)
  from valid len room session big killed small three negative none abc word early
  show ?thesis by blast
qed

text \<open>
  As worded, the claim C8 lets the program end normally with the exit code 0 for every
  count.  With room for 1048576 pointers on the stack (8 MiB) and a session of 1100000
  entries, the process is killed when the array is reserved: it creates no record,
  displays nothing and returns no exit code.
\<close>

theorem count_beyond_the_stack:
  "list_all valid_entry (replicate 1100000 (DoctorEntry ''Asha'' 34 7)) \<and>
   sint (1100000 :: int32) = int (length (replicate 1100000 (DoctorEntry ''Asha'' 34 7))) \<and>
   hospital_main zeros 1048576
     (hospital_init
        (IntItem 1100000 # concat (map encode_entry (replicate 1100000 (DoctorEntry ''Asha'' 34 7))))) =
     Some (Killed
       ((hospital_init (concat (map encode_entry (replicate 1100000 (DoctorEntry ''Asha'' 34 7)))))
          \<lparr>cout := ''Enter number of records: ''\<rparr>))"
proof (intro conjI)
  show "list_all valid_entry (replicate 1100000 (DoctorEntry ''Asha'' 34 7))"
    by (simp add: list_all_iff)
  show "sint (1100000 :: int32) = int (length (replicate 1100000 (DoctorEntry ''Asha'' 34 7)))"
    by simp
  have "int 1048576 < sint (1100000 :: int32)" by simp
  from hospital_main_killed [OF this, where junk = zeros and t = "hospital_init []"]
  show "hospital_main zeros 1048576
     (hospital_init
        (IntItem 1100000 # concat (map encode_entry (replicate 1100000 (DoctorEntry ''Asha'' 34 7))))) =
     Some (Killed
       ((hospital_init (concat (map encode_entry (replicate 1100000 (DoctorEntry ''Asha'' 34 7)))))
          \<lparr>cout := ''Enter number of records: ''\<rparr>))"
    by (simp add: hospital_init_def del: replicate.simps map_replicate)
qed

end
